theory Spec2Isabelle
  imports Main "HOL-Library.Word"
begin

section \<open>The reconciliation and accounting loop of panel.go\<close>

text \<open>
  A shallow embedding of \<^verbatim>\<open>src/panel.go\<close>: the cycle body \<^verbatim>\<open>do\<close>, the traffic
  collector \<^verbatim>\<open>getTraffic\<close>, the reconciler \<^verbatim>\<open>syncUser\<close> and their helpers.
  The database, the proxy's handler and stats services, the clock and the formatting
  library are collaborators declared outside the file; they are parameters of the model
  (the record \<open>env\<close>), acting on an abstract world \<open>'w\<close>. Every call the program makes to
  a collaborator is appended, with its outcome, to the \<open>trace\<close> of the panel, so that
  "which calls were issued" is a statement about a list.
\<close>

subsection \<open>Data\<close>

type_synonym u64 = "64 word"

text \<open>A Go \<^verbatim>\<open>error\<close> value that is not nil.\<close>

type_synonym err = string

text \<open>
  \<^verbatim>\<open>UserModel\<close>: the fields panel.go reads. Go's \<^verbatim>\<open>==\<close> on the struct compares all
  fields, as HOL's equality on the record does.
\<close>

record UserModel =
  ID :: nat
  VmessID :: string
  Email :: string
  Port :: int

text \<open>
  \<^verbatim>\<open>UserTrafficLog\<close>. The field \<^verbatim>\<open>NodeID\<close> of the source is \<open>LogNodeID\<close> here, the
  panel having a \<^verbatim>\<open>NodeID\<close> of its own. \<^verbatim>\<open>Rate\<close> is a float64: floating point is not
  modelled, its values are the abstract type \<open>'f\<close>.
\<close>

record 'f UserTrafficLog =
  UserID :: nat
  Uplink :: u64
  Downlink :: u64
  LogNodeID :: nat
  Rate :: 'f
  Traffic :: string

record 'f userStatsLogs =
  UserTrafficLog :: "'f UserTrafficLog"
  UserPort :: int

text \<open>\<^verbatim>\<open>NodeInfo{NodeID, Uptime, Load}\<close> and \<^verbatim>\<open>NodeOnlineLog{NodeID, OnlineUser}\<close>.\<close>

datatype NodeInfo = NodeInfo nat int string

datatype NodeOnlineLog = NodeOnlineLog nat nat

text \<open>The account payloads of \<^verbatim>\<open>convertUser\<close> and \<^verbatim>\<open>protocol.User{Level, Email, Account}\<close>.\<close>

datatype Account =
    VlessAccount string
  | TrojanAccount string
  | VmessAccount string nat nat

datatype User = User nat string Account

record UserConfig =
  Level :: nat
  AlterID :: nat
  securityConfig :: nat
  InboundTag :: string

record 'f Node =
  TrafficRate :: 'f

text \<open>The severities and the messages of the log lines the file writes.\<close>

datatype severity = AtDebug | AtWarning | AtError

datatype logmsg =
    LostDbConnection int
  | CycleSummary nat nat string string nat
  | DeletedUser UserModel
  | AddedUser UserModel
  | AddUserErr err UserModel

text \<open>One entry of the trace: a call to a collaborator with its outcome, or a log line.\<close>

datatype 'f effect =
    CPing "err option"
  | CCreateNodeInfo NodeInfo "err option"
  | CGetUserDownlink string "err + u64"
  | CGetUserUplink string "err + u64"
  | CCreateUserTrafficLog "'f UserTrafficLog" "err option"
  | CCreateNodeOnlineLog NodeOnlineLog "err option"
  | CUpdates "nat list" string string int "err option"
  | CGetAllUsers nat "err + UserModel list"
  | CDelUser string "err option"
  | CAddUser User "err option"
  | CLog severity logmsg

text \<open>
  The collaborators. Each call takes the world and returns its result with the new
  world. \<open>mulRate r x\<close> stands for the Go expression \<^verbatim>\<open>uint64(r * float64(x))\<close>,
  \<open>Uptime\<close> for \<^verbatim>\<open>time.Now().Sub(p.startAt) / time.Second\<close>, \<open>UnixNow\<close> for
  \<^verbatim>\<open>time.Now().Unix()\<close>, \<open>ByteSize\<close> for \<^verbatim>\<open>bytefmt.ByteSize\<close>.
\<close>

record ('w, 'f) env =
  Ping :: "'w \<Rightarrow> err option \<times> 'w"
  CreateNodeInfo :: "NodeInfo \<Rightarrow> 'w \<Rightarrow> err option \<times> 'w"
  CreateUserTrafficLog :: "'f UserTrafficLog \<Rightarrow> 'w \<Rightarrow> err option \<times> 'w"
  CreateNodeOnlineLog :: "NodeOnlineLog \<Rightarrow> 'w \<Rightarrow> err option \<times> 'w"
  Updates :: "nat list \<Rightarrow> string \<Rightarrow> string \<Rightarrow> int \<Rightarrow> 'w \<Rightarrow> err option \<times> 'w"
  GetAllUsers :: "nat \<Rightarrow> 'w \<Rightarrow> (err + UserModel list) \<times> 'w"
  DelUser :: "string \<Rightarrow> 'w \<Rightarrow> err option \<times> 'w"
  AddUser :: "User \<Rightarrow> 'w \<Rightarrow> err option \<times> 'w"
  getUserDownlink :: "string \<Rightarrow> 'w \<Rightarrow> (err + u64) \<times> 'w"
  getUserUplink :: "string \<Rightarrow> 'w \<Rightarrow> (err + u64) \<times> 'w"
  Uptime :: "'w \<Rightarrow> int"
  getSystemLoad :: "'w \<Rightarrow> string"
  UnixNow :: "'w \<Rightarrow> int"
  mulRate :: "'f \<Rightarrow> u64 \<Rightarrow> u64"
  ByteSize :: "u64 \<Rightarrow> string"

text \<open>
  \<^verbatim>\<open>Panel\<close>. The embedded \<^verbatim>\<open>*Config\<close> gives \<open>NodeID\<close>, \<open>IgnoreEmptyVmessID\<close> and
  \<open>UserConfig\<close>; \<open>inboundProtocol\<close> is the \<^verbatim>\<open>Protocol\<close> of
  \<^verbatim>\<open>getInboundConfigByTag(p.UserConfig.InboundTag, p.v2rayConfig.InboundConfigs)\<close>;
  \<open>RetryTimes\<close> is \<^verbatim>\<open>p.db.RetryTimes\<close>. \<open>world\<close> is the state of the collaborators and
  \<open>trace\<close> the calls issued so far.

  \<^verbatim>\<open>RetryTimes\<close> is declared outside panel.go. It is a Go integer, so of a fixed width, and
  \<^verbatim>\<open>++\<close> wraps around at its bound: here a word whose width \<open>'n\<close> is a parameter, read as a
  signed number (\<open>sint\<close>) where the program prints it. The record type depends on the
  length of \<open>'n\<close>, hence the option on its declaration.
\<close>

record (overloaded) ('w, 'f, 'n::len) Panel =
  NodeID :: nat
  IgnoreEmptyVmessID :: bool
  UserConfig :: UserConfig
  inboundProtocol :: string
  node :: "'f Node"
  userModels :: "UserModel list"
  RetryTimes :: "'n word"
  world :: 'w
  trace :: "'f effect list"

text \<open>
  Modelled from the spec: \<^verbatim>\<open>fatal\<close> is defined outside panel.go; the spec (4.4, 7) has
  it halt the process, so control never comes back to the caller. An \<open>outcome\<close> is how a
  function ends: \<open>Returned\<close> with its results, or \<open>Halted\<close> by \<^verbatim>\<open>fatal\<close>, each with the
  state at that moment.
\<close>

datatype ('a, 's) outcome = Returned 'a 's | Halted 's

fun final :: "('a, 's) outcome \<Rightarrow> 's" where
  "final (Returned r s) = s"
| "final (Halted s) = s"

text \<open>What a function returned, if it returned.\<close>

fun result :: "('a, 's) outcome \<Rightarrow> 'a option" where
  "result (Returned r s) = Some r"
| "result (Halted s) = None"

subsection \<open>Calls and log lines\<close>

definition issue ::
  "('w \<Rightarrow> 'r \<times> 'w) \<Rightarrow> ('r \<Rightarrow> 'f effect) \<Rightarrow> ('w, 'f, 'n::len) Panel \<Rightarrow> 'r \<times> ('w, 'f, 'n) Panel" where
  "issue f ev p =
     (let (r, w) = f (world p) in (r, p\<lparr>world := w, trace := trace p @ [ev r]\<rparr>))"

definition WriteToLog :: "severity \<Rightarrow> logmsg \<Rightarrow> ('w, 'f, 'n::len) Panel \<Rightarrow> ('w, 'f, 'n) Panel" where
  "WriteToLog sev m p = p\<lparr>trace := trace p @ [CLog sev m]\<rparr>"

text \<open>The calls a panel issued since it was in state \<open>p\<close>.\<close>

definition issued :: "('w, 'f, 'n::len) Panel \<Rightarrow> ('w, 'f, 'n) Panel \<Rightarrow> 'f effect list" where
  "issued p p' = drop (length (trace p)) (trace p')"

subsection \<open>Formatting with \<^verbatim>\<open>%d\<close>\<close>

definition digit :: "nat \<Rightarrow> char" where
  "digit d = ''0123456789'' ! d"

function showNat :: "nat \<Rightarrow> string" where
  "showNat n = (if n < 10 then [digit n] else showNat (n div 10) @ [digit (n mod 10)])"
  by pat_completeness auto
termination
  by (relation "measure (\<lambda>n. n)") auto

declare showNat.simps [simp del]

subsection \<open>\<^verbatim>\<open>findUserModelIndex\<close>, \<^verbatim>\<open>inUserModels\<close>\<close>

text \<open>The loop of \<^verbatim>\<open>findUserModelIndex\<close>, from index \<open>i\<close> on.\<close>

fun findFrom :: "nat \<Rightarrow> UserModel \<Rightarrow> UserModel list \<Rightarrow> int" where
  "findFrom i u [] = - 1"
| "findFrom i u (user # rest) = (if user = u then int i else findFrom (Suc i) u rest)"

definition findUserModelIndex :: "UserModel \<Rightarrow> UserModel list \<Rightarrow> int" where
  "findUserModelIndex u users = findFrom 0 u users"

definition inUserModels :: "UserModel \<Rightarrow> UserModel list \<Rightarrow> bool" where
  "inUserModels u users = (findUserModelIndex u users \<noteq> - 1)"

subsection \<open>\<^verbatim>\<open>convertUser\<close>, \<^verbatim>\<open>mulTrafficRate\<close>\<close>

definition convertUser :: "('w, 'f, 'n::len) Panel \<Rightarrow> UserModel \<Rightarrow> User" where
  "convertUser p userModel =
     (let userCfg = UserConfig p in
      if inboundProtocol p = ''vless'' then
        User (Level userCfg) (Email userModel) (VlessAccount (VmessID userModel))
      else if inboundProtocol p = ''trojan'' then
        User (Level userCfg) (Email userModel) (TrojanAccount (VmessID userModel))
      else
        User (Level userCfg) (Email userModel)
          (VmessAccount (VmessID userModel) (AlterID userCfg) (securityConfig userCfg)))"

definition mulTrafficRate :: "('w, 'f) env \<Rightarrow> ('w, 'f, 'n::len) Panel \<Rightarrow> u64 \<Rightarrow> u64" where
  "mulTrafficRate env p traffic = mulRate env (TrafficRate (node p)) traffic"

subsection \<open>\<^verbatim>\<open>getTraffic\<close>\<close>

text \<open>
  The loop over \<^verbatim>\<open>p.userModels\<close>; the result is the pair \<^verbatim>\<open>(logs, err)\<close> of the named
  results. The inner \<^verbatim>\<open>if err != nil\<close> of the source is dead: \<^verbatim>\<open>err\<close> is nil there.
\<close>

fun getTrafficLoop ::
  "('w, 'f) env \<Rightarrow> UserModel list \<Rightarrow> 'f userStatsLogs list \<Rightarrow> ('w, 'f, 'n::len) Panel \<Rightarrow>
     'f userStatsLogs list \<times> err option \<times> ('w, 'f, 'n) Panel" where
  "getTrafficLoop env [] logs p = (logs, None, p)"
| "getTrafficLoop env (user # rest) logs p =
     (case issue (getUserDownlink env (Email user)) (CGetUserDownlink (Email user)) p of
        (Inl e, p1) \<Rightarrow> (logs, Some e, p1)
      | (Inr downlink, p1) \<Rightarrow>
          (case issue (getUserUplink env (Email user)) (CGetUserUplink (Email user)) p1 of
             (Inl e, p2) \<Rightarrow> (logs, Some e, p2)
           | (Inr uplink, p2) \<Rightarrow>
               if uplink + downlink > 0 then
                 getTrafficLoop env rest
                   (logs @ [\<lparr>UserTrafficLog =
                               \<lparr>UserID = ID user, Uplink = uplink, Downlink = downlink,
                                LogNodeID = NodeID p2, Rate = TrafficRate (node p2),
                                Traffic = []\<rparr>,
                             UserPort = Port user\<rparr>]) p2
               else getTrafficLoop env rest logs p2))"

definition getTraffic ::
  "('w, 'f) env \<Rightarrow> ('w, 'f, 'n::len) Panel \<Rightarrow> 'f userStatsLogs list \<times> err option \<times> ('w, 'f, 'n) Panel" where
  "getTraffic env p = getTrafficLoop env (userModels p) [] p"

subsection \<open>\<^verbatim>\<open>syncUser\<close>\<close>

text \<open>
  The delete loop. \<^verbatim>\<open>append(p.userModels[:i], p.userModels[i+1:]...)\<close> runs before the
  call of \<^verbatim>\<open>DelUser\<close>; on an error the function returns with the counters as they are.
\<close>

fun delLoop ::
  "('w, 'f) env \<Rightarrow> UserModel list \<Rightarrow> nat \<Rightarrow> ('w, 'f, 'n::len) Panel \<Rightarrow>
     nat \<times> err option \<times> ('w, 'f, 'n) Panel" where
  "delLoop env [] deletedUserCount p = (deletedUserCount, None, p)"
| "delLoop env (userModel # rest) deletedUserCount p =
     (let i = findUserModelIndex userModel (userModels p) in
      if i \<noteq> - 1 then
        (let p1 = p\<lparr>userModels := take (nat i) (userModels p) @ drop (nat i + 1) (userModels p)\<rparr>
         in case issue (DelUser env (Email userModel)) (CDelUser (Email userModel)) p1 of
              (Some e, p2) \<Rightarrow> (deletedUserCount, Some e, p2)
            | (None, p2) \<Rightarrow>
                delLoop env rest (deletedUserCount + 1)
                  (WriteToLog AtDebug (DeletedUser userModel) p2))
      else delLoop env rest deletedUserCount p)"

text \<open>
  The add loop. \<open>err\<close> is the named result: every call of \<^verbatim>\<open>AddUser\<close> assigns it, so
  the function returns the outcome of the last one.
\<close>

fun addLoop ::
  "('w, 'f) env \<Rightarrow> UserModel list \<Rightarrow> nat \<Rightarrow> nat \<Rightarrow> err option \<Rightarrow> ('w, 'f, 'n::len) Panel \<Rightarrow>
     (nat \<times> nat \<times> err option, ('w, 'f, 'n) Panel) outcome" where
  "addLoop env [] addedUserCount deletedUserCount err p =
     Returned (addedUserCount, deletedUserCount, err) p"
| "addLoop env (userModel # rest) addedUserCount deletedUserCount err p =
     (case issue (AddUser env (convertUser p userModel)) (CAddUser (convertUser p userModel)) p of
        (Some e, p1) \<Rightarrow>
          if IgnoreEmptyVmessID p1 then
            addLoop env rest addedUserCount deletedUserCount (Some e)
              (WriteToLog AtWarning (AddUserErr e userModel) p1)
          else Halted p1
      | (None, p1) \<Rightarrow>
          addLoop env rest (addedUserCount + 1) deletedUserCount None
            (WriteToLog AtDebug (AddedUser userModel)
               (p1\<lparr>userModels := userModels p1 @ [userModel]\<rparr>)))"

text \<open>The two lists \<^verbatim>\<open>syncUser\<close> computes before it calls the handler service.\<close>

definition addUserModels :: "UserModel list \<Rightarrow> UserModel list \<Rightarrow> UserModel list" where
  "addUserModels users provisioned = filter (\<lambda>u. \<not> inUserModels u provisioned) users"

definition delUserModels :: "UserModel list \<Rightarrow> UserModel list \<Rightarrow> UserModel list" where
  "delUserModels users provisioned = filter (\<lambda>u. \<not> inUserModels u users) provisioned"

definition syncUser ::
  "('w, 'f) env \<Rightarrow> ('w, 'f, 'n::len) Panel \<Rightarrow> (nat \<times> nat \<times> err option, ('w, 'f, 'n) Panel) outcome" where
  "syncUser env p =
     (case issue (GetAllUsers env (NodeID p)) (CGetAllUsers (NodeID p)) p of
        (Inl e, p1) \<Rightarrow> Returned (0, 0, Some e) p1
      | (Inr users, p1) \<Rightarrow>
          if length users = 0 then Returned (0, 0, None) p1
          else
            (let adds = addUserModels users (userModels p1);
                 dels = delUserModels users (userModels p1)
             in case delLoop env dels 0 p1 of
                  (deletedUserCount, Some e, p2) \<Rightarrow> Returned (0, deletedUserCount, Some e) p2
                | (deletedUserCount, None, p2) \<Rightarrow>
                    addLoop env adds 0 deletedUserCount None p2))"

subsection \<open>\<^verbatim>\<open>do\<close>\<close>

text \<open>
  The accumulators of the loop over \<^verbatim>\<open>userTrafficLogs\<close>: \<^verbatim>\<open>onlineUsers\<close>,
  \<^verbatim>\<open>uplinkTotal\<close>, \<^verbatim>\<open>downlinkTotal\<close>, \<^verbatim>\<open>userIDs\<close>, \<^verbatim>\<open>uVals\<close>, \<^verbatim>\<open>dVals\<close>.
\<close>

record acc =
  onlineUsers :: nat
  uplinkTotal :: u64
  downlinkTotal :: u64
  userIDs :: "nat list"
  uVals :: string
  dVals :: string

fun logLoop ::
  "('w, 'f) env \<Rightarrow> 'f userStatsLogs list \<Rightarrow> acc \<Rightarrow> ('w, 'f, 'n::len) Panel \<Rightarrow> acc \<times> ('w, 'f, 'n) Panel" where
  "logLoop env [] a p = (a, p)"
| "logLoop env (log # rest) a p =
     (let uplink = mulTrafficRate env p (Uplink (UserTrafficLog log));
          downlink = mulTrafficRate env p (Downlink (UserTrafficLog log));
          a1 = (if Uplink (UserTrafficLog log) + Downlink (UserTrafficLog log) > 2048
                then a\<lparr>onlineUsers := onlineUsers a + 1\<rparr> else a);
          a2 = a1\<lparr>uplinkTotal := uplinkTotal a1 + Uplink (UserTrafficLog log),
                  downlinkTotal := downlinkTotal a1 + Downlink (UserTrafficLog log)\<rparr>;
          row = (UserTrafficLog log)\<lparr>Traffic := ByteSize env (uplink + downlink)\<rparr>;
          (r, p1) = issue (CreateUserTrafficLog env row) (CCreateUserTrafficLog row) p;
          a3 = a2\<lparr>userIDs := userIDs a2 @ [UserID (UserTrafficLog log)],
                  uVals := uVals a2 @ '' WHEN '' @ showNat (UserID (UserTrafficLog log))
                             @ '' THEN u + '' @ showNat (unat uplink),
                  dVals := dVals a2 @ '' WHEN '' @ showNat (UserID (UserTrafficLog log))
                             @ '' THEN d + '' @ showNat (unat downlink)\<rparr>
      in logLoop env rest a3 p1)"

text \<open>The deferred log line of \<^verbatim>\<open>do\<close>, run when \<^verbatim>\<open>do\<close> returns after the ping.\<close>

definition summary ::
  "('w, 'f) env \<Rightarrow> nat \<Rightarrow> nat \<Rightarrow> acc \<Rightarrow> ('w, 'f, 'n::len) Panel \<Rightarrow> ('w, 'f, 'n) Panel" where
  "summary env addedUserCount deletedUserCount a p =
     WriteToLog AtDebug
       (CycleSummary addedUserCount deletedUserCount (ByteSize env (downlinkTotal a))
          (ByteSize env (uplinkTotal a)) (onlineUsers a)) p"

definition acc0 :: acc where
  "acc0 = \<lparr>onlineUsers = 0, uplinkTotal = 0, downlinkTotal = 0, userIDs = [], uVals = [],
           dVals = []\<rparr>"

definition do :: "('w, 'f) env \<Rightarrow> ('w, 'f, 'n::len) Panel \<Rightarrow> (err option, ('w, 'f, 'n) Panel) outcome" where
  "do env p =
     (case issue (Ping env) CPing p of
        (Some e, p1) \<Rightarrow>
          (let p2 = p1\<lparr>RetryTimes := RetryTimes p1 + 1\<rparr>
           in Returned None (WriteToLog AtDebug (LostDbConnection (sint (RetryTimes p2))) p2))
      | (None, p1) \<Rightarrow>
          (let p2 = p1\<lparr>RetryTimes := 0\<rparr>;
               info = NodeInfo (NodeID p2) (Uptime env (world p2)) (getSystemLoad env (world p2))
           in case issue (CreateNodeInfo env info) (CCreateNodeInfo info) p2 of
                (Some e, p3) \<Rightarrow> Returned (Some e) (summary env 0 0 acc0 p3)
              | (None, p3) \<Rightarrow>
                  (case getTraffic env p3 of
                     (logs, Some e, p4) \<Rightarrow> Returned (Some e) (summary env 0 0 acc0 p4)
                   | (userTrafficLogs, None, p4) \<Rightarrow>
                       (let (a, p5) = logLoop env userTrafficLogs acc0 p4;
                            p6 = (if onlineUsers a > 0 then
                                    snd (issue (CreateNodeOnlineLog env
                                                 (NodeOnlineLog (NodeID p5) (onlineUsers a)))
                                          (CCreateNodeOnlineLog
                                             (NodeOnlineLog (NodeID p5) (onlineUsers a))) p5)
                                  else p5);
                            p7 = (if uVals a \<noteq> [] \<and> dVals a \<noteq> [] then
                                    snd (issue (Updates env (userIDs a)
                                                 (''CASE id '' @ uVals a @ '' END'')
                                                 (''CASE id '' @ dVals a @ '' END'')
                                                 (UnixNow env (world p6)))
                                          (CUpdates (userIDs a)
                                             (''CASE id '' @ uVals a @ '' END'')
                                             (''CASE id '' @ dVals a @ '' END'')
                                             (UnixNow env (world p6))) p6)
                                  else p6)
                        in case syncUser env p7 of
                             Returned (addedUserCount, deletedUserCount, err) p8 \<Rightarrow>
                               Returned None (summary env addedUserCount deletedUserCount a p8)
                           | Halted p8 \<Rightarrow> Halted p8))))"

subsection \<open>Reading the trace\<close>

fun isAdmin :: "'f effect \<Rightarrow> bool" where
  "isAdmin (CDelUser m r) = True"
| "isAdmin (CAddUser u r) = True"
| "isAdmin c = False"

fun adminFailed :: "'f effect \<Rightarrow> bool" where
  "adminFailed (CDelUser m (Some e)) = True"
| "adminFailed (CAddUser u (Some e)) = True"
| "adminFailed c = False"

fun addFailed :: "'f effect \<Rightarrow> bool" where
  "addFailed (CAddUser u (Some e)) = True"
| "addFailed c = False"

fun isDel :: "'f effect \<Rightarrow> bool" where
  "isDel (CDelUser m r) = True"
| "isDel c = False"

text \<open>The trace of removals that all succeed, and of additions that all succeed.\<close>

definition delOk :: "UserModel list \<Rightarrow> 'f effect list" where
  "delOk us = concat (map (\<lambda>u. [CDelUser (Email u) None, CLog AtDebug (DeletedUser u)]) us)"

definition addOk :: "('w, 'f, 'n::len) Panel \<Rightarrow> UserModel list \<Rightarrow> 'f effect list" where
  "addOk p us = concat (map (\<lambda>u. [CAddUser (convertUser p u) None, CLog AtDebug (AddedUser u)]) us)"

text \<open>The trace of one addition with its outcome, and the users whose addition succeeded.\<close>

fun addStep :: "('w, 'f, 'n::len) Panel \<Rightarrow> UserModel \<times> err option \<Rightarrow> 'f effect list" where
  "addStep p (u, None) = [CAddUser (convertUser p u) None, CLog AtDebug (AddedUser u)]"
| "addStep p (u, Some e) = [CAddUser (convertUser p u) (Some e), CLog AtWarning (AddUserErr e u)]"

definition added :: "(UserModel \<times> err option) list \<Rightarrow> UserModel list" where
  "added urs = map fst (filter (\<lambda>ur. snd ur = None) urs)"

text \<open>Classes of calls.\<close>

fun isStats :: "'f effect \<Rightarrow> bool" where
  "isStats (CGetUserDownlink m r) = True"
| "isStats (CGetUserUplink m r) = True"
| "isStats c = False"

fun isUpdates :: "'f effect \<Rightarrow> bool" where
  "isUpdates (CUpdates ids u d t r) = True"
| "isUpdates c = False"

fun isRow :: "'f effect \<Rightarrow> bool" where
  "isRow (CCreateUserTrafficLog l r) = True"
| "isRow c = False"

fun isOnlineLog :: "'f effect \<Rightarrow> bool" where
  "isOnlineLog (CCreateNodeOnlineLog l r) = True"
| "isOnlineLog c = False"

fun isFetch :: "'f effect \<Rightarrow> bool" where
  "isFetch (CGetAllUsers n r) = True"
| "isFetch c = False"

fun isSync :: "'f effect \<Rightarrow> bool" where
  "isSync (CGetAllUsers n r) = True"
| "isSync (CDelUser m r) = True"
| "isSync (CAddUser u r) = True"
| "isSync (CLog s m) = True"
| "isSync c = False"

text \<open>The error of a failed stats read.\<close>

fun statsError :: "'f effect \<Rightarrow> err option" where
  "statsError (CGetUserDownlink m (Inl e)) = Some e"
| "statsError (CGetUserUplink m (Inl e)) = Some e"
| "statsError c = None"

text \<open>
  The two reads of a user when both succeed, as a triple (user, downlink, uplink); the log
  entry \<^verbatim>\<open>getTraffic\<close> builds from them, and the test it applies.
\<close>

fun readPair :: "UserModel \<times> u64 \<times> u64 \<Rightarrow> 'f effect list" where
  "readPair (user, d, u) =
     [CGetUserDownlink (Email user) (Inr d), CGetUserUplink (Email user) (Inr u)]"

definition reads :: "(UserModel \<times> u64 \<times> u64) list \<Rightarrow> 'f effect list" where
  "reads xs = concat (map readPair xs)"

fun positive :: "UserModel \<times> u64 \<times> u64 \<Rightarrow> bool" where
  "positive (user, d, u) = (u + d > 0)"

fun mkLog :: "('w, 'f, 'n::len) Panel \<Rightarrow> UserModel \<times> u64 \<times> u64 \<Rightarrow> 'f userStatsLogs" where
  "mkLog p (user, d, u) =
     \<lparr>UserTrafficLog =
        \<lparr>UserID = ID user, Uplink = u, Downlink = d, LogNodeID = NodeID p,
         Rate = TrafficRate (node p), Traffic = []\<rparr>,
      UserPort = Port user\<rparr>"

text \<open>
  What the loop of \<^verbatim>\<open>do\<close> makes of one log entry: the row it inserts, the test for
  "online", and the two clauses it appends to \<^verbatim>\<open>uVals\<close> and \<^verbatim>\<open>dVals\<close>.
\<close>

definition row :: "('w, 'f) env \<Rightarrow> ('w, 'f, 'n::len) Panel \<Rightarrow> 'f userStatsLogs \<Rightarrow> 'f UserTrafficLog" where
  "row env p l =
     (UserTrafficLog l)\<lparr>Traffic := ByteSize env
        (mulTrafficRate env p (Uplink (UserTrafficLog l))
         + mulTrafficRate env p (Downlink (UserTrafficLog l)))\<rparr>"

fun rowEv :: "('w, 'f) env \<Rightarrow> ('w, 'f, 'n::len) Panel \<Rightarrow> 'f userStatsLogs \<times> err option \<Rightarrow> 'f effect" where
  "rowEv env p (l, r) = CCreateUserTrafficLog (row env p l) r"

definition online :: "'f userStatsLogs \<Rightarrow> bool" where
  "online l = (Uplink (UserTrafficLog l) + Downlink (UserTrafficLog l) > 2048)"

definition uClause :: "('w, 'f) env \<Rightarrow> ('w, 'f, 'n::len) Panel \<Rightarrow> 'f userStatsLogs \<Rightarrow> string" where
  "uClause env p l =
     '' WHEN '' @ showNat (UserID (UserTrafficLog l)) @ '' THEN u + ''
       @ showNat (unat (mulTrafficRate env p (Uplink (UserTrafficLog l))))"

definition dClause :: "('w, 'f) env \<Rightarrow> ('w, 'f, 'n::len) Panel \<Rightarrow> 'f userStatsLogs \<Rightarrow> string" where
  "dClause env p l =
     '' WHEN '' @ showNat (UserID (UserTrafficLog l)) @ '' THEN d + ''
       @ showNat (unat (mulTrafficRate env p (Downlink (UserTrafficLog l))))"

text \<open>The bulk update of a cycle whose traffic logs are \<open>logs\<close>.\<close>

definition bulk ::
  "('w, 'f) env \<Rightarrow> ('w, 'f, 'n::len) Panel \<Rightarrow> 'f userStatsLogs list \<Rightarrow> int \<Rightarrow> err option \<Rightarrow> 'f effect" where
  "bulk env p logs t r =
     CUpdates (map (\<lambda>l. UserID (UserTrafficLog l)) logs)
       (''CASE id '' @ concat (map (uClause env p) logs) @ '' END'')
       (''CASE id '' @ concat (map (dClause env p) logs) @ '' END'') t r"

subsection \<open>A concrete node\<close>

text \<open>
  Collaborators without a state of their own, for evaluating the program: the ping, the
  heartbeat insert and the other database writes answer \<open>pingR\<close>, \<open>infoR\<close> and \<open>writeR\<close>;
  the stats service answers from the table \<open>stats\<close> (label, downlink, uplink);
  \<^verbatim>\<open>GetAllUsers\<close> answers \<open>users\<close>; removing a label of \<open>badDel\<close> and adding a label of
  \<open>badAdd\<close> fail. The billing rate is a natural number.
\<close>

definition demoEnv ::
  "err option \<Rightarrow> err option \<Rightarrow> err option \<Rightarrow> (string \<times> (err + u64) \<times> (err + u64)) list \<Rightarrow>
     (err + UserModel list) \<Rightarrow> string list \<Rightarrow> string list \<Rightarrow> (unit, nat) env" where
  "demoEnv pingR infoR writeR stats users badDel badAdd =
     \<lparr>Ping = (\<lambda>w. (pingR, w)),
      CreateNodeInfo = (\<lambda>i w. (infoR, w)),
      CreateUserTrafficLog = (\<lambda>r w. (writeR, w)),
      CreateNodeOnlineLog = (\<lambda>r w. (writeR, w)),
      Updates = (\<lambda>ids u d t w. (writeR, w)),
      GetAllUsers = (\<lambda>n w. (users, w)),
      DelUser = (\<lambda>m w. (if m \<in> set badDel then Some ''remove failed'' else None, w)),
      AddUser = (\<lambda>u w. (case u of User l m a \<Rightarrow>
                   if m \<in> set badAdd then Some ''add failed'' else None, w)),
      getUserDownlink = (\<lambda>m w. (case map_of stats m of None \<Rightarrow> Inr 0 | Some (d, u) \<Rightarrow> d, w)),
      getUserUplink = (\<lambda>m w. (case map_of stats m of None \<Rightarrow> Inr 0 | Some (d, u) \<Rightarrow> u, w)),
      Uptime = (\<lambda>w. 60),
      getSystemLoad = (\<lambda>w. ''0.00 0.00 0.00''),
      UnixNow = (\<lambda>w. 1700000000),
      mulRate = (\<lambda>r x. of_nat r * x),
      ByteSize = (\<lambda>x. showNat (unat x) @ ''B'')\<rparr>"

definition demoPanel :: "bool \<Rightarrow> UserModel list \<Rightarrow> (unit, nat, 64) Panel" where
  "demoPanel tolerant provisioned =
     \<lparr>NodeID = 1, IgnoreEmptyVmessID = tolerant,
      UserConfig = \<lparr>Level = 0, AlterID = 1, securityConfig = 0, InboundTag = ''proxy''\<rparr>,
      inboundProtocol = ''vmess'', node = \<lparr>TrafficRate = 2\<rparr>,
      userModels = provisioned, RetryTimes = 3, world = (), trace = []\<rparr>"

definition alice :: UserModel where
  "alice = \<lparr>ID = 1, VmessID = ''key-a'', Email = ''alice'', Port = 10001\<rparr>"

text \<open>\<open>alice\<close> after a change of her credential.\<close>

definition alice2 :: UserModel where
  "alice2 = \<lparr>ID = 1, VmessID = ''key-b'', Email = ''alice'', Port = 10001\<rparr>"

definition bob :: UserModel where
  "bob = \<lparr>ID = 2, VmessID = ''key-c'', Email = ''bob'', Port = 10002\<rparr>"

definition carol :: UserModel where
  "carol = \<lparr>ID = 3, VmessID = ''key-d'', Email = ''carol'', Port = 10003\<rparr>"

definition dave :: UserModel where
  "dave = \<lparr>ID = 4, VmessID = ''key-e'', Email = ''dave'', Port = 10004\<rparr>"

section \<open>Properties\<close>

subsection \<open>Searching the provisioned list\<close>

lemma findFrom_append:
  "u \<notin> set ys \<Longrightarrow> findFrom i u (ys @ u # xs) = int (i + length ys)"
  by (induction ys arbitrary: i) auto

lemma findFrom_notin: "(findFrom i u us = - 1) = (u \<notin> set us)"
  by (induction us arbitrary: i) auto

lemma inUserModels_iff: "inUserModels u us = (u \<in> set us)"
  by (simp add: inUserModels_def findUserModelIndex_def findFrom_notin)

lemma findUserModelIndex_append:
  "u \<notin> set ys \<Longrightarrow> findUserModelIndex u (ys @ u # xs) = int (length ys)"
  by (simp add: findUserModelIndex_def findFrom_append)

lemma delLoop_filter:
  assumes "\<forall>y\<in>set ys. P y" and "userModels p = ys @ xs"
    and "delLoop env (filter (\<lambda>u. \<not> P u) xs) d p = (d', r, p')"
  shows "\<exists>w zs k. p' = p\<lparr>userModels := zs, world := w,
             trace := trace p @ delOk (take k (filter (\<lambda>u. \<not> P u) xs))
               @ (case r of None \<Rightarrow> []
                  | Some e \<Rightarrow> [CDelUser (Email (filter (\<lambda>u. \<not> P u) xs ! k)) (Some e)])\<rparr>
           \<and> d' = d + k
           \<and> filter P zs = ys @ filter P xs
           \<and> (case r of None \<Rightarrow> k = length (filter (\<lambda>u. \<not> P u) xs) \<and> filter (\<lambda>u. \<not> P u) zs = []
               | Some e \<Rightarrow> k < length (filter (\<lambda>u. \<not> P u) xs)
                    \<and> filter (\<lambda>u. \<not> P u) zs = drop (Suc k) (filter (\<lambda>u. \<not> P u) xs))"
  using assms
proof (induction xs arbitrary: ys p d)
  case Nil
  then show ?case
    apply (intro exI[of _ "world p"] exI[of _ "ys"] exI[of _ 0])
    apply (auto simp: delOk_def)
    done
next
  case (Cons x xs)
  show ?case
  proof (cases "P x")
    case True
    have "\<forall>y\<in>set (ys @ [x]). P y" using Cons.prems(1) True by auto
    moreover have "userModels p = (ys @ [x]) @ xs" using Cons.prems(2) by simp
    moreover have "delLoop env (filter (\<lambda>u. \<not> P u) xs) d p = (d', r, p')"
      using Cons.prems(3) True by simp
    ultimately obtain w zs k where
      "p' = p\<lparr>userModels := zs, world := w,
             trace := trace p @ delOk (take k (filter (\<lambda>u. \<not> P u) xs))
               @ (case r of None \<Rightarrow> []
                  | Some e \<Rightarrow> [CDelUser (Email (filter (\<lambda>u. \<not> P u) xs ! k)) (Some e)])\<rparr>
           \<and> d' = d + k
           \<and> filter P zs = (ys @ [x]) @ filter P xs
           \<and> (case r of None \<Rightarrow> k = length (filter (\<lambda>u. \<not> P u) xs) \<and> filter (\<lambda>u. \<not> P u) zs = []
               | Some e \<Rightarrow> k < length (filter (\<lambda>u. \<not> P u) xs)
                    \<and> filter (\<lambda>u. \<not> P u) zs = drop (Suc k) (filter (\<lambda>u. \<not> P u) xs))"
      using Cons.IH[of "ys @ [x]" p d] by blast
    then show ?thesis using True
      by (intro exI[of _ w] exI[of _ zs] exI[of _ k]) (auto split: option.splits)
  next
    case False
    then have xn: "x \<notin> set ys" using Cons.prems(1) by auto
    have idx: "findUserModelIndex x (userModels p) = int (length ys)"
      using Cons.prems(2) xn by (simp add: findUserModelIndex_append)
    let ?p1 = "p\<lparr>userModels := ys @ xs\<rparr>"
    obtain r0 w0 where dw: "DelUser env (Email x) (world p) = (r0, w0)"
      by (cases "DelUser env (Email x) (world p)")
    show ?thesis
    proof (cases r0)
      case (Some e)
      then have "d' = d \<and> r = Some e \<and>
          p' = p\<lparr>userModels := ys @ xs, world := w0, trace := trace p @ [CDelUser (Email x) (Some e)]\<rparr>"
        using Cons.prems(2,3) False idx dw by (auto simp: issue_def)
      then show ?thesis using False Cons.prems(1)
        apply (intro exI[of _ w0] exI[of _ "ys @ xs"] exI[of _ 0])
        apply (auto simp: delOk_def)
        done
    next
      case None
      let ?p2 = "WriteToLog AtDebug (DeletedUser x)
                   (p\<lparr>userModels := ys @ xs, world := w0, trace := trace p @ [CDelUser (Email x) None]\<rparr>)"
      have step: "delLoop env (filter (\<lambda>u. \<not> P u) xs) (d + 1) ?p2 = (d', r, p')"
        using Cons.prems(2,3) False idx dw None by (auto simp: issue_def)
      have um: "userModels ?p2 = ys @ xs" by (simp add: WriteToLog_def)
      obtain w zs k where IH:
        "p' = ?p2\<lparr>userModels := zs, world := w,
             trace := trace ?p2 @ delOk (take k (filter (\<lambda>u. \<not> P u) xs))
               @ (case r of None \<Rightarrow> []
                  | Some e \<Rightarrow> [CDelUser (Email (filter (\<lambda>u. \<not> P u) xs ! k)) (Some e)])\<rparr>
           \<and> d' = (d + 1) + k
           \<and> filter P zs = ys @ filter P xs
           \<and> (case r of None \<Rightarrow> k = length (filter (\<lambda>u. \<not> P u) xs) \<and> filter (\<lambda>u. \<not> P u) zs = []
               | Some e \<Rightarrow> k < length (filter (\<lambda>u. \<not> P u) xs)
                    \<and> filter (\<lambda>u. \<not> P u) zs = drop (Suc k) (filter (\<lambda>u. \<not> P u) xs))"
        using Cons.IH[OF Cons.prems(1) um step] by blast
      then show ?thesis using False
        apply (intro exI[of _ w] exI[of _ zs] exI[of _ "Suc k"])
        apply (auto simp: delOk_def WriteToLog_def split: option.splits)
        done
    qed
  qed
qed

subsection \<open>The add loop\<close>

lemma convertUser_frame [simp]:
  "convertUser (p\<lparr>userModels := um\<rparr>) = convertUser p"
  "convertUser (p\<lparr>world := w\<rparr>) = convertUser p"
  "convertUser (p\<lparr>trace := t\<rparr>) = convertUser p"
  "convertUser (p\<lparr>RetryTimes := n\<rparr>) = convertUser p"
  by (simp_all add: convertUser_def fun_eq_iff cong: if_cong)

lemma addLoop_tolerant:
  assumes "IgnoreEmptyVmessID p"
  shows "\<exists>urs w. map fst urs = adds \<and>
     addLoop env adds a d err p =
       Returned (a + length (added urs), d, if urs = [] then err else snd (last urs))
         (p\<lparr>userModels := userModels p @ added urs, world := w,
            trace := trace p @ concat (map (addStep p) urs)\<rparr>)"
  using assms
proof (induction adds arbitrary: a err p)
  case Nil
  show ?case
    by (intro exI[of _ "[]"] exI[of _ "world p"]) (simp add: added_def)
next
  case (Cons u adds)
  obtain r0 w0 where aw: "AddUser env (convertUser p u) (world p) = (r0, w0)"
    by (cases "AddUser env (convertUser p u) (world p)")
  show ?case
  proof (cases r0)
    case None
    let ?p2 = "WriteToLog AtDebug (AddedUser u)
       (p\<lparr>world := w0, trace := trace p @ [CAddUser (convertUser p u) None],
          userModels := userModels p @ [u]\<rparr>)"
    have ig: "IgnoreEmptyVmessID ?p2" using Cons.prems by (simp add: WriteToLog_def)
    obtain urs w where IH: "map fst urs = adds"
      "addLoop env adds (a + 1) d None ?p2 =
         Returned ((a + 1) + length (added urs), d, if urs = [] then None else snd (last urs))
         (?p2\<lparr>userModels := userModels ?p2 @ added urs, world := w,
            trace := trace ?p2 @ concat (map (addStep ?p2) urs)\<rparr>)"
      using Cons.IH[OF ig, of "a + 1" None] by blast
    have st: "addStep ?p2 = addStep p"
      by (rule ext) (case_tac x, case_tac b, simp_all add: WriteToLog_def)
    show ?thesis
      apply (intro exI[of _ "(u, None) # urs"] exI[of _ w])
      using IH aw None st
      apply (simp add: issue_def WriteToLog_def added_def)
      done
  next
    case (Some e)
    let ?p2 = "WriteToLog AtWarning (AddUserErr e u)
       (p\<lparr>world := w0, trace := trace p @ [CAddUser (convertUser p u) (Some e)]\<rparr>)"
    have ig: "IgnoreEmptyVmessID ?p2" using Cons.prems by (simp add: WriteToLog_def)
    obtain urs w where IH: "map fst urs = adds"
      "addLoop env adds a d (Some e) ?p2 =
         Returned (a + length (added urs), d, if urs = [] then Some e else snd (last urs))
         (?p2\<lparr>userModels := userModels ?p2 @ added urs, world := w,
            trace := trace ?p2 @ concat (map (addStep ?p2) urs)\<rparr>)"
      using Cons.IH[OF ig, of a "Some e"] by blast
    have st: "addStep ?p2 = addStep p"
      by (rule ext) (case_tac x, case_tac b, simp_all add: WriteToLog_def)
    show ?thesis
      apply (intro exI[of _ "(u, Some e) # urs"] exI[of _ w])
      using IH aw Some st Cons.prems
      apply (simp add: issue_def WriteToLog_def added_def)
      done
  qed
qed

lemma addOk_frame [simp]:
  "addOk (p\<lparr>userModels := um\<rparr>) = addOk p"
  "addOk (p\<lparr>world := w\<rparr>) = addOk p"
  "addOk (p\<lparr>trace := t\<rparr>) = addOk p"
  by (simp_all add: addOk_def fun_eq_iff)

lemma addLoop_strict:
  assumes "\<not> IgnoreEmptyVmessID p"
  shows "\<exists>w k. k \<le> length adds \<and>
     (if k = length adds then
        addLoop env adds a d err p =
          Returned (a + k, d, if adds = [] then err else None)
            (p\<lparr>userModels := userModels p @ adds, world := w, trace := trace p @ addOk p adds\<rparr>)
      else
        (\<exists>e. addLoop env adds a d err p =
          Halted (p\<lparr>userModels := userModels p @ take k adds, world := w,
                    trace := trace p @ addOk p (take k adds)
                       @ [CAddUser (convertUser p (adds ! k)) (Some e)]\<rparr>)))"
  using assms
proof (induction adds arbitrary: a err p)
  case Nil
  show ?case
    by (intro exI[of _ "world p"] exI[of _ 0]) (simp add: addOk_def)
next
  case (Cons u adds)
  obtain r0 w0 where aw: "AddUser env (convertUser p u) (world p) = (r0, w0)"
    by (cases "AddUser env (convertUser p u) (world p)")
  show ?case
  proof (cases r0)
    case None
    let ?p2 = "WriteToLog AtDebug (AddedUser u)
       (p\<lparr>world := w0, trace := trace p @ [CAddUser (convertUser p u) None],
          userModels := userModels p @ [u]\<rparr>)"
    have ig: "\<not> IgnoreEmptyVmessID ?p2" using Cons.prems by (simp add: WriteToLog_def)
    have step: "addLoop env (u # adds) a d err p = addLoop env adds (a + 1) d None ?p2"
      using aw None by (simp add: issue_def)
    obtain w k where IH: "k \<le> length adds"
      "(if k = length adds then
        addLoop env adds (a + 1) d None ?p2 =
          Returned ((a + 1) + k, d, if adds = [] then None else None)
            (?p2\<lparr>userModels := userModels ?p2 @ adds, world := w, trace := trace ?p2 @ addOk ?p2 adds\<rparr>)
      else
        (\<exists>e. addLoop env adds (a + 1) d None ?p2 =
          Halted (?p2\<lparr>userModels := userModels ?p2 @ take k adds, world := w,
                    trace := trace ?p2 @ addOk ?p2 (take k adds)
                       @ [CAddUser (convertUser ?p2 (adds ! k)) (Some e)]\<rparr>)))"
      using Cons.IH[OF ig, of "a + 1" None] by blast
    show ?thesis
      apply (intro exI[of _ w] exI[of _ "Suc k"])
      using IH step
      apply (auto simp: WriteToLog_def addOk_def split: if_splits)
      done
  next
    case (Some e)
    have "addLoop env (u # adds) a d err p =
        Halted (p\<lparr>world := w0, trace := trace p @ [CAddUser (convertUser p u) (Some e)]\<rparr>)"
      using aw Some Cons.prems by (simp add: issue_def)
    then show ?thesis
      apply (intro exI[of _ w0] exI[of _ 0])
      apply (auto simp: addOk_def)
      done
  qed
qed

subsection \<open>The reconciler\<close>

lemma issued_append [simp]:
  "issued p (p\<lparr>userModels := um, world := w, trace := trace p @ t\<rparr>) = t"
  "issued p (p\<lparr>world := w, trace := trace p @ t\<rparr>) = t"
  by (simp_all add: issued_def)

lemma syncUser_unfold:
  assumes "GetAllUsers env (NodeID p) (world p) = (Inr auth, w1)" and "auth \<noteq> []"
  shows "syncUser env p =
     (case delLoop env (filter (\<lambda>u. \<not> u \<in> set auth) (userModels p)) 0
             (p\<lparr>world := w1, trace := trace p @ [CGetAllUsers (NodeID p) (Inr auth)]\<rparr>) of
        (d, Some e, p2) \<Rightarrow> Returned (0, d, Some e) p2
      | (d, None, p2) \<Rightarrow>
          addLoop env (filter (\<lambda>u. u \<notin> set (userModels p)) auth) 0 d None p2)"
  using assms
  by (auto simp: syncUser_def issue_def addUserModels_def delUserModels_def inUserModels_iff
      split: prod.splits option.splits)

text \<open>What the delete phase leaves, for a fetched list auth that is not empty.\<close>

lemma syncUser_del_phase:
  assumes "GetAllUsers env (NodeID p) (world p) = (Inr auth, w1)"
  shows "\<exists>r p2 w zs k.
    delLoop env (filter (\<lambda>u. \<not> u \<in> set auth) (userModels p)) 0
             (p\<lparr>world := w1, trace := trace p @ [CGetAllUsers (NodeID p) (Inr auth)]\<rparr>) = (k, r, p2)
    \<and> p2 = p\<lparr>userModels := zs, world := w,
             trace := trace p @ CGetAllUsers (NodeID p) (Inr auth) #
               delOk (take k (filter (\<lambda>u. \<not> u \<in> set auth) (userModels p)))
               @ (case r of None \<Rightarrow> []
                  | Some e \<Rightarrow> [CDelUser (Email (filter (\<lambda>u. \<not> u \<in> set auth) (userModels p) ! k)) (Some e)])\<rparr>
    \<and> filter (\<lambda>u. u \<in> set auth) zs = filter (\<lambda>u. u \<in> set auth) (userModels p)
    \<and> (case r of None \<Rightarrow> k = length (filter (\<lambda>u. \<not> u \<in> set auth) (userModels p)) \<and> filter (\<lambda>u. \<not> u \<in> set auth) zs = []
               | Some e \<Rightarrow> k < length (filter (\<lambda>u. \<not> u \<in> set auth) (userModels p))
                    \<and> filter (\<lambda>u. \<not> u \<in> set auth) zs = drop (Suc k) (filter (\<lambda>u. \<not> u \<in> set auth) (userModels p)))"
proof -
  let ?p1 = "p\<lparr>world := w1, trace := trace p @ [CGetAllUsers (NodeID p) (Inr auth)]\<rparr>"
  let ?dels = "filter (\<lambda>u. \<not> u \<in> set auth) (userModels p)"
  obtain d r p2 where dl: "delLoop env ?dels 0 ?p1 = (d, r, p2)"
    by (cases "delLoop env ?dels 0 ?p1") auto
  have um: "userModels ?p1 = [] @ userModels p" by simp
  have "\<forall>y\<in>set ([]::UserModel list). y \<in> set auth" by simp
  from delLoop_filter[OF this um dl] obtain w zs k where
    "p2 = ?p1\<lparr>userModels := zs, world := w,
             trace := trace ?p1 @ delOk (take k ?dels)
               @ (case r of None \<Rightarrow> []
                  | Some e \<Rightarrow> [CDelUser (Email (?dels ! k)) (Some e)])\<rparr>
           \<and> d = 0 + k
           \<and> filter (\<lambda>u. u \<in> set auth) zs = [] @ filter (\<lambda>u. u \<in> set auth) (userModels p)
           \<and> (case r of None \<Rightarrow> k = length ?dels \<and> filter (\<lambda>u. \<not> u \<in> set auth) zs = []
               | Some e \<Rightarrow> k < length ?dels
                    \<and> filter (\<lambda>u. \<not> u \<in> set auth) zs = drop (Suc k) ?dels)"
    by blast
  then show ?thesis using dl
    by (intro exI[of _ r] exI[of _ p2] exI[of _ w] exI[of _ zs] exI[of _ k]) simp
qed

lemma filter_all_eq: "filter (\<lambda>u. \<not> P u) zs = [] \<Longrightarrow> filter P zs = zs"
  by (induction zs) (auto split: if_splits)

lemma IgnoreEmptyVmessID_frame [simp]:
  "IgnoreEmptyVmessID (p\<lparr>userModels := zs, world := w, trace := t\<rparr>) = IgnoreEmptyVmessID p"
  by simp

lemma syncUser_tolerant:
  fixes p :: "('w, 'f, 'n::len) Panel"
  assumes p2': "p2 = p\<lparr>userModels := keep, world := w,
             trace := trace p @ CGetAllUsers (NodeID p) (Inr auth) # delOk dels\<rparr>"
    and su': "syncUser env p = addLoop env adds 0 (length dels) None p2"
    and True: "IgnoreEmptyVmessID p"
  shows "(\<exists>urs w. map fst urs = adds \<and>
          syncUser env p =
            Returned (length (added urs), length dels,
                      if urs = [] then None else snd (last urs))
              (p\<lparr>userModels := keep @ added urs, world := w,
                 trace := trace p @ CGetAllUsers (NodeID p) (Inr auth) #
                   delOk dels @ concat (map (addStep p) urs)\<rparr>))"
proof -
      have "IgnoreEmptyVmessID p2" using p2' True by simp
      from addLoop_tolerant[OF this, of adds env 0 "length dels" None]
      obtain urs w' where "map fst urs = adds"
        "addLoop env adds 0 (length dels) None p2 =
          Returned (0 + length (added urs), length dels, if urs = [] then None else snd (last urs))
           (p2\<lparr>userModels := userModels p2 @ added urs, world := w',
              trace := trace p2 @ concat (map (addStep p2) urs)\<rparr>)"
        by blast
      moreover have "addStep p2 = addStep p"
        by (rule ext) (case_tac x, case_tac b, simp_all add: p2')
      ultimately show ?thesis using True su' p2'
        by (intro conjI exI[of _ urs] exI[of _ w']) simp_all
qed


lemma syncUser_strict:
  fixes p :: "('w, 'f, 'n::len) Panel"
  assumes p2': "p2 = p\<lparr>userModels := keep, world := w,
             trace := trace p @ CGetAllUsers (NodeID p) (Inr auth) # delOk dels\<rparr>"
    and su': "syncUser env p = addLoop env adds 0 (length dels) None p2"
    and False: "\<not> IgnoreEmptyVmessID p"
  shows "(\<exists>w. syncUser env p =
            Returned (length adds, length dels, None)
              (p\<lparr>userModels := keep @ adds, world := w,
                 trace := trace p @ CGetAllUsers (NodeID p) (Inr auth) #
                   delOk dels @ addOk p adds\<rparr>))
    \<or> (\<exists>k e w. k < length adds \<and>
          syncUser env p =
            Halted
              (p\<lparr>userModels := keep @ take k adds, world := w,
                 trace := trace p @ CGetAllUsers (NodeID p) (Inr auth) #
                   delOk dels @ addOk p (take k adds)
                   @ [CAddUser (convertUser p (adds ! k)) (Some e)]\<rparr>))"
   (is "?S \<or> ?H")
proof -
      have "\<not> IgnoreEmptyVmessID p2" using p2' False by simp
      from addLoop_strict[OF this, of adds env 0 "length dels" None]
      obtain w' j where j: "j \<le> length adds"
        "(if j = length adds then
        addLoop env adds 0 (length dels) None p2 =
          Returned (0 + j, length dels, if adds = [] then None else None)
            (p2\<lparr>userModels := userModels p2 @ adds, world := w', trace := trace p2 @ addOk p2 adds\<rparr>)
      else
        (\<exists>e. addLoop env adds 0 (length dels) None p2 =
          Halted (p2\<lparr>userModels := userModels p2 @ take j adds, world := w',
                    trace := trace p2 @ addOk p2 (take j adds)
                       @ [CAddUser (convertUser p2 (adds ! j)) (Some e)]\<rparr>)))"
        by blast
      have fr: "addOk p2 = addOk p" "convertUser p2 = convertUser p"
        by (simp_all add: p2')
      show ?thesis
      proof (cases "j = length adds")
        case True
        then have "?S" using j False su' p2' fr
          by (intro conjI exI[of _ w']) simp_all
        then show ?thesis by (rule disjI1)
      next
        case F: False
        then obtain e where h: "addLoop env adds 0 (length dels) None p2 =
          Halted (p2\<lparr>userModels := userModels p2 @ take j adds, world := w',
                    trace := trace p2 @ addOk p2 (take j adds)
                       @ [CAddUser (convertUser p2 (adds ! j)) (Some e)]\<rparr>)"
          using j(2) by (simp only: if_False) blast
        have 1: "j < length adds" using j(1) F by simp
        have 2: "syncUser env p = Halted
              (p\<lparr>userModels := keep @ take j adds, world := w',
                 trace := trace p @ CGetAllUsers (NodeID p) (Inr auth) #
                   delOk dels @ addOk p (take j adds)
                   @ [CAddUser (convertUser p (adds ! j)) (Some e)]\<rparr>)"
          unfolding su' h unfolding fr unfolding p2' by simp
        have "?H" using 1 2 by blast
        then show ?thesis by (rule disjI2)
      qed
qed


lemma syncUser_cases:
  assumes "GetAllUsers env (NodeID p) (world p) = (Inr auth, w1)" and "auth \<noteq> []"
  shows
   "(\<exists>k e zs w. k < length (filter (\<lambda>u. u \<notin> set auth) (userModels p)) \<and>
        syncUser env p = Returned (0, k, Some e)
          (p\<lparr>userModels := zs, world := w,
             trace := trace p @ CGetAllUsers (NodeID p) (Inr auth) #
               delOk (take k (filter (\<lambda>u. u \<notin> set auth) (userModels p)))
               @ [CDelUser (Email (filter (\<lambda>u. u \<notin> set auth) (userModels p) ! k)) (Some e)]\<rparr>) \<and>
        filter (\<lambda>u. u \<in> set auth) zs = filter (\<lambda>u. u \<in> set auth) (userModels p) \<and>
        filter (\<lambda>u. u \<notin> set auth) zs = drop (Suc k) (filter (\<lambda>u. u \<notin> set auth) (userModels p)))
    \<or> (IgnoreEmptyVmessID p \<and>
        (\<exists>urs w. map fst urs = filter (\<lambda>u. u \<notin> set (userModels p)) auth \<and>
          syncUser env p =
            Returned (length (added urs), length (filter (\<lambda>u. u \<notin> set auth) (userModels p)),
                      if urs = [] then None else snd (last urs))
              (p\<lparr>userModels := filter (\<lambda>u. u \<in> set auth) (userModels p) @ added urs, world := w,
                 trace := trace p @ CGetAllUsers (NodeID p) (Inr auth) #
                   delOk (filter (\<lambda>u. u \<notin> set auth) (userModels p)) @ concat (map (addStep p) urs)\<rparr>)))
    \<or> (\<not> IgnoreEmptyVmessID p \<and>
        (\<exists>w. syncUser env p =
            Returned (length (filter (\<lambda>u. u \<notin> set (userModels p)) auth),
                      length (filter (\<lambda>u. u \<notin> set auth) (userModels p)), None)
              (p\<lparr>userModels := filter (\<lambda>u. u \<in> set auth) (userModels p)
                    @ filter (\<lambda>u. u \<notin> set (userModels p)) auth, world := w,
                 trace := trace p @ CGetAllUsers (NodeID p) (Inr auth) #
                   delOk (filter (\<lambda>u. u \<notin> set auth) (userModels p))
                   @ addOk p (filter (\<lambda>u. u \<notin> set (userModels p)) auth)\<rparr>)))
    \<or> (\<not> IgnoreEmptyVmessID p \<and>
        (\<exists>k e w. k < length (filter (\<lambda>u. u \<notin> set (userModels p)) auth) \<and>
          syncUser env p =
            Halted
              (p\<lparr>userModels := filter (\<lambda>u. u \<in> set auth) (userModels p)
                    @ take k (filter (\<lambda>u. u \<notin> set (userModels p)) auth), world := w,
                 trace := trace p @ CGetAllUsers (NodeID p) (Inr auth) #
                   delOk (filter (\<lambda>u. u \<notin> set auth) (userModels p))
                   @ addOk p (take k (filter (\<lambda>u. u \<notin> set (userModels p)) auth))
                   @ [CAddUser (convertUser p (filter (\<lambda>u. u \<notin> set (userModels p)) auth ! k)) (Some e)]\<rparr>)))"
    (is "?B \<or> ?T \<or> ?S \<or> ?H")
proof -
  let ?dels = "filter (\<lambda>u. u \<notin> set auth) (userModels p)"
  let ?adds = "filter (\<lambda>u. u \<notin> set (userModels p)) auth"
  let ?keep = "filter (\<lambda>u. u \<in> set auth) (userModels p)"
  let ?p1 = "p\<lparr>world := w1, trace := trace p @ [CGetAllUsers (NodeID p) (Inr auth)]\<rparr>"
  obtain r p2 w zs k where
    dl: "delLoop env ?dels 0 ?p1 = (k, r, p2)"
    and p2: "p2 = p\<lparr>userModels := zs, world := w,
             trace := trace p @ CGetAllUsers (NodeID p) (Inr auth) # delOk (take k ?dels)
               @ (case r of None \<Rightarrow> [] | Some e \<Rightarrow> [CDelUser (Email (?dels ! k)) (Some e)])\<rparr>"
    and keep: "filter (\<lambda>u. u \<in> set auth) zs = ?keep"
    and rest: "(case r of None \<Rightarrow> k = length ?dels \<and> filter (\<lambda>u. \<not> u \<in> set auth) zs = []
               | Some e \<Rightarrow> k < length ?dels \<and> filter (\<lambda>u. \<not> u \<in> set auth) zs = drop (Suc k) ?dels)"
    using syncUser_del_phase[OF assms(1)] by blast
  have su: "syncUser env p =
     (case (k, r, p2) of
        (d, Some e, p2) \<Rightarrow> Returned (0, d, Some e) p2
      | (d, None, p2) \<Rightarrow> addLoop env ?adds 0 d None p2)"
    using syncUser_unfold[OF assms] dl by simp
  show ?thesis
  proof (cases r)
    case (Some e)
    have k: "k < length ?dels"
      and nz: "filter (\<lambda>u. u \<notin> set auth) zs = drop (Suc k) ?dels"
      using rest Some by simp_all
    have su2: "syncUser env p = Returned (0, k, Some e) p2"
      using su Some by simp
    have p2s: "p2 = p\<lparr>userModels := zs, world := w,
             trace := trace p @ CGetAllUsers (NodeID p) (Inr auth) # delOk (take k ?dels)
               @ [CDelUser (Email (?dels ! k)) (Some e)]\<rparr>"
      using p2 Some by simp
    have "?B"
      apply (intro exI[of _ k] exI[of _ e] exI[of _ zs] exI[of _ w] conjI)
         apply (rule k)
        apply (simp only: su2 p2s)
       apply (rule keep)
      apply (rule nz)
      done
    then show ?thesis by (rule disjI1)
  next
    case None
    then have k: "k = length ?dels" and zs: "zs = ?keep"
      using rest keep filter_all_eq[of "\<lambda>u. u \<in> set auth" zs] by auto
    have p2': "p2 = p\<lparr>userModels := ?keep, world := w,
             trace := trace p @ CGetAllUsers (NodeID p) (Inr auth) # delOk ?dels\<rparr>"
      using p2 None k zs by simp
    have su': "syncUser env p = addLoop env ?adds 0 (length ?dels) None p2"
      using su None k by simp
    show ?thesis
    proof (cases "IgnoreEmptyVmessID p")
      case True
      have "?T" using syncUser_tolerant[OF p2' su' True] True by (rule_tac conjI)
      then show ?thesis by (rule disjI2[OF disjI1])
    next
      case False
      from syncUser_strict[OF p2' su' False] have "?S \<or> ?H" using False by blast
      then show ?thesis by blast
    qed
  qed
qed

lemma filter_isAdmin_delOk:
  "filter isAdmin (delOk us) = map (\<lambda>u. CDelUser (Email u) None) us"
  by (induction us) (simp_all add: delOk_def)

lemma filter_isAdmin_addOk:
  "filter isAdmin (addOk p us) = map (\<lambda>u. CAddUser (convertUser p u) None) us"
  by (induction us) (simp_all add: addOk_def)

lemma isDel_addOk: "filter isDel (addOk p us) = []"
  by (induction us) (simp_all add: addOk_def)

lemma isDel_addStep: "filter isDel (concat (map (addStep p) urs)) = []"
proof (induction urs)
  case Nil
  show ?case by simp
next
  case (Cons ur urs)
  obtain u r where "ur = (u, r)" by (cases ur)
  then show ?case using Cons by (cases r) simp_all
qed

lemma addStep_all_ok:
  "\<forall>c\<in>set (concat (map (addStep p) urs)). \<not> adminFailed c \<Longrightarrow>
     urs = map (\<lambda>u. (u, None)) (map fst urs)"
proof (induction urs)
  case Nil
  show ?case by simp
next
  case (Cons ur urs)
  obtain u r where ur: "ur = (u, r)" by (cases ur)
  show ?case
  proof (cases r)
    case None
    then show ?thesis using Cons ur by simp
  next
    case (Some e)
    then have "adminFailed (CAddUser (convertUser p u) (Some e) :: 'b effect)" by simp
    then show ?thesis using Cons.prems ur Some by auto
  qed
qed

lemma addStep_None: "concat (map (addStep p) (map (\<lambda>u. (u, None)) us)) = addOk p us"
  by (induction us) (simp_all add: addOk_def)

lemma added_None: "added (map (\<lambda>u. (u, None)) us) = us"
  by (induction us) (simp_all add: added_def)

lemma added_subset: "set (added urs) \<subseteq> set (map fst urs)"
  by (auto simp: added_def)

lemma fetch_pair:
  "fst (GetAllUsers env n w) = r \<Longrightarrow> \<exists>w1. GetAllUsers env n w = (r, w1)"
  by (cases "GetAllUsers env n w") simp

lemma addFailed_delOk: "c \<in> set (delOk us) \<Longrightarrow> \<not> addFailed c"
  by (induction us) (auto simp: delOk_def)

lemma addFailed_addOk: "c \<in> set (addOk p us) \<Longrightarrow> \<not> addFailed c"
  by (induction us) (auto simp: addOk_def)

lemma delUserModels_eq: "delUserModels users prov = filter (\<lambda>u. u \<notin> set users) prov"
  by (simp add: delUserModels_def inUserModels_iff)

lemma addUserModels_eq: "addUserModels users prov = filter (\<lambda>u. u \<notin> set prov) users"
  by (simp add: addUserModels_def inUserModels_iff)

lemma filter_kept_set:
  assumes "filter (\<lambda>u. u \<in> set auth) zs = filter (\<lambda>u. u \<in> set auth) prov"
  shows "filter (\<lambda>u. u \<notin> set zs) auth = filter (\<lambda>u. u \<notin> set prov) auth"
proof (rule filter_cong[OF refl])
  fix u assume u: "u \<in> set auth"
  have "u \<in> set zs \<longleftrightarrow> u \<in> set (filter (\<lambda>u. u \<in> set auth) zs)" using u by simp
  also have "\<dots> \<longleftrightarrow> u \<in> set (filter (\<lambda>u. u \<in> set auth) prov)" using assms by simp
  also have "\<dots> \<longleftrightarrow> u \<in> set prov" using u by simp
  finally show "(u \<notin> set zs) = (u \<notin> set prov)" by simp
qed

lemma syncUser_all_ok:
  assumes fetch: "fst (GetAllUsers env (NodeID p) (world p)) = Inr auth"
    and ne: "auth \<noteq> []"
    and ok: "\<forall>c\<in>set (issued p (final (syncUser env p))). \<not> adminFailed c"
  shows "\<exists>p'. syncUser env p =
            Returned (length (filter (\<lambda>u. u \<notin> set (userModels p)) auth),
                      length (filter (\<lambda>u. u \<notin> set auth) (userModels p)), None) p'
          \<and> userModels p' = filter (\<lambda>u. u \<in> set auth) (userModels p)
                              @ filter (\<lambda>u. u \<notin> set (userModels p)) auth
          \<and> filter isAdmin (issued p p') =
              map (\<lambda>u. CDelUser (Email u) None) (filter (\<lambda>u. u \<notin> set auth) (userModels p))
              @ map (\<lambda>u. CAddUser (convertUser p u) None)
                  (filter (\<lambda>u. u \<notin> set (userModels p)) auth)
          \<and> set (userModels p') = set auth"
proof -
  let ?dels = "filter (\<lambda>u. u \<notin> set auth) (userModels p)"
  let ?adds = "filter (\<lambda>u. u \<notin> set (userModels p)) auth"
  let ?keep = "filter (\<lambda>u. u \<in> set auth) (userModels p)"
  let ?g = "CGetAllUsers (NodeID p) (Inr auth) :: 'b effect"
  obtain w1 where g: "GetAllUsers env (NodeID p) (world p) = (Inr auth, w1)"
    using fetch_pair[OF fetch] by blast
  have goal: "\<exists>p'. syncUser env p = Returned (length ?adds, length ?dels, None) p'
          \<and> userModels p' = ?keep @ ?adds
          \<and> filter isAdmin (issued p p') =
              map (\<lambda>u. CDelUser (Email u) None) ?dels
              @ map (\<lambda>u. CAddUser (convertUser p u) None) ?adds"
    if su: "syncUser env p = Returned (length ?adds, length ?dels, None)
             (p\<lparr>userModels := ?keep @ ?adds, world := w,
                trace := trace p @ ?g # delOk ?dels @ addOk p ?adds\<rparr>)" for w
    unfolding su by (simp add: filter_isAdmin_delOk filter_isAdmin_addOk)
  have sets: "set (?keep @ ?adds) = set auth" by auto
  from syncUser_cases[OF g ne] consider
    (B) k e zs w where "syncUser env p = Returned (0, k, Some e)
          (p\<lparr>userModels := zs, world := w,
             trace := trace p @ ?g # delOk (take k ?dels) @ [CDelUser (Email (?dels ! k)) (Some e)]\<rparr>)"
  | (T) urs w where "map fst urs = ?adds"
      "syncUser env p =
            Returned (length (added urs), length ?dels, if urs = [] then None else snd (last urs))
              (p\<lparr>userModels := ?keep @ added urs, world := w,
                 trace := trace p @ ?g # delOk ?dels @ concat (map (addStep p) urs)\<rparr>)"
  | (S) w where "syncUser env p = Returned (length ?adds, length ?dels, None)
              (p\<lparr>userModels := ?keep @ ?adds, world := w,
                 trace := trace p @ ?g # delOk ?dels @ addOk p ?adds\<rparr>)"
  | (H) k e w where "syncUser env p = Halted
              (p\<lparr>userModels := ?keep @ take k ?adds, world := w,
                 trace := trace p @ ?g # delOk ?dels @ addOk p (take k ?adds)
                   @ [CAddUser (convertUser p (?adds ! k)) (Some e)]\<rparr>)"
    by blast
  then have "\<exists>p'. syncUser env p = Returned (length ?adds, length ?dels, None) p'
          \<and> userModels p' = ?keep @ ?adds
          \<and> filter isAdmin (issued p p') =
              map (\<lambda>u. CDelUser (Email u) None) ?dels
              @ map (\<lambda>u. CAddUser (convertUser p u) None) ?adds"
  proof cases
    case B
    have "adminFailed (CDelUser (Email (?dels ! k)) (Some e) :: 'b effect)" by simp
    moreover have "CDelUser (Email (?dels ! k)) (Some e) \<in> set (issued p (final (syncUser env p)))"
      unfolding B by simp
    ultimately show ?thesis using ok by blast
  next
    case T
    have "\<forall>c\<in>set (concat (map (addStep p) urs)). \<not> adminFailed c"
      using ok unfolding T(2) by simp
    from addStep_all_ok[OF this] have urs: "urs = map (\<lambda>u. (u, None)) ?adds"
      using T(1) by simp
    have a: "added urs = ?adds"
      by (subst urs) (rule added_None)
    have b: "concat (map (addStep p) urs) = addOk p ?adds"
      by (subst urs) (rule addStep_None)
    have c: "(if urs = [] then None else snd (last urs)) = None"
      by (subst (1 2) urs) (simp add: last_map)
    have "syncUser env p = Returned (length ?adds, length ?dels, None)
             (p\<lparr>userModels := ?keep @ ?adds, world := w,
                trace := trace p @ ?g # delOk ?dels @ addOk p ?adds\<rparr>)"
      unfolding T(2) a b c by (rule refl)
    then show ?thesis by (rule goal)
  next
    case S
    then show ?thesis by (rule goal)
  next
    case H
    have "adminFailed (CAddUser (convertUser p (?adds ! k)) (Some e) :: 'b effect)" by simp
    moreover have "CAddUser (convertUser p (?adds ! k)) (Some e) \<in> set (issued p (final (syncUser env p)))"
      unfolding H by simp
    ultimately show ?thesis using ok by blast
  qed
  then obtain p' where "syncUser env p = Returned (length ?adds, length ?dels, None) p'"
    "userModels p' = ?keep @ ?adds"
    "filter isAdmin (issued p p') =
              map (\<lambda>u. CDelUser (Email u) None) ?dels
              @ map (\<lambda>u. CAddUser (convertUser p u) None) ?adds"
    by blast
  moreover from this(2) sets have "set (userModels p') = set auth" by simp
  ultimately show ?thesis by blast
qed

lemma syncUser_nothing_to_do:
  assumes g: "GetAllUsers env (NodeID p) (world p) = (Inr auth, w1)"
    and same: "set (userModels p) = set auth"
  shows "syncUser env p = Returned (0, 0, None)
           (p\<lparr>world := w1, trace := trace p @ [CGetAllUsers (NodeID p) (Inr auth)]\<rparr>)"
proof (cases "auth = []")
  case True
  then show ?thesis using g by (simp add: syncUser_def issue_def)
next
  case False
  have "filter (\<lambda>u. u \<notin> set auth) (userModels p) = []"
    "filter (\<lambda>u. u \<notin> set (userModels p)) auth = []"
    using same by (simp_all add: filter_empty_conv)
  then show ?thesis
    unfolding syncUser_unfold[OF g False] by simp
qed

subsection \<open>The collector and the cycle\<close>

lemma mkLog_frame [simp]:
  "mkLog (p\<lparr>world := w\<rparr>) = mkLog p"
  "mkLog (p\<lparr>trace := t\<rparr>) = mkLog p"
  by (simp_all add: fun_eq_iff)

lemma mkLog_frame2 [simp]: "mkLog (p\<lparr>RetryTimes := n\<rparr>) = mkLog p"
  by (simp add: fun_eq_iff)

lemma getTrafficLoop_char:
  "getTrafficLoop env us logs p = (logs', r, p') \<Longrightarrow>
     \<exists>w st. p' = p\<lparr>world := w, trace := trace p @ st\<rparr> \<and> list_all isStats st \<and>
       (case r of
          None \<Rightarrow> \<exists>xs. map fst xs = us \<and> st = reads xs
                     \<and> logs' = logs @ map (mkLog p) (filter positive xs)
        | Some e \<Rightarrow> \<exists>c\<in>set st. statsError c = Some e)"
proof (induction us arbitrary: logs p)
  case Nil
  then show ?case
    by (intro exI[of _ "world p"] exI[of _ "[]"]) (simp add: reads_def)
next
  case (Cons user us)
  obtain rd w1 where dn: "getUserDownlink env (Email user) (world p) = (rd, w1)"
    by (cases "getUserDownlink env (Email user) (world p)")
  show ?case
  proof (cases rd)
    case (Inl e)
    then have "r = Some e" "p' = p\<lparr>world := w1, trace := trace p @ [CGetUserDownlink (Email user) (Inl e)]\<rparr>"
      using Cons.prems dn by (simp_all add: issue_def)
    then show ?thesis
      by (intro exI[of _ w1] exI[of _ "[CGetUserDownlink (Email user) (Inl e)]"]) simp
  next
    case (Inr d)
    obtain ru w2 where up: "getUserUplink env (Email user) w1 = (ru, w2)"
      by (cases "getUserUplink env (Email user) w1")
    show ?thesis
    proof (cases ru)
      case (Inl e)
      then have "r = Some e"
        "p' = p\<lparr>world := w2, trace := trace p @ [CGetUserDownlink (Email user) (Inr d),
                   CGetUserUplink (Email user) (Inl e)]\<rparr>"
        using Cons.prems dn up \<open>rd = Inr d\<close> by (simp_all add: issue_def)
      then show ?thesis
        by (intro exI[of _ w2] exI[of _ "[CGetUserDownlink (Email user) (Inr d),
                   CGetUserUplink (Email user) (Inl e)]"]) simp
    next
      case (Inr u)
      let ?p2 = "p\<lparr>world := w2, trace := trace p @ [CGetUserDownlink (Email user) (Inr d),
                   CGetUserUplink (Email user) (Inr u)]\<rparr>"
      let ?logs2 = "logs @ map (mkLog p) (filter positive [(user, d, u)])"
      have step: "getTrafficLoop env us ?logs2 ?p2 = (logs', r, p')"
        using Cons.prems dn up \<open>rd = Inr d\<close> Inr by (auto simp: issue_def split: if_splits)
      from Cons.IH[OF step] obtain w st where IH:
        "p' = ?p2\<lparr>world := w, trace := trace ?p2 @ st\<rparr>" "list_all isStats st"
        "(case r of
          None \<Rightarrow> \<exists>xs. map fst xs = us \<and> st = reads xs
                     \<and> logs' = ?logs2 @ map (mkLog ?p2) (filter positive xs)
        | Some e \<Rightarrow> \<exists>c\<in>set st. statsError c = Some e)"
        by blast
      have p': "p' = p\<lparr>world := w, trace := trace p @ readPair (user, d, u) @ st\<rparr>"
        using IH(1) by simp
      have all: "list_all isStats (readPair (user, d, u) @ st)"
        using IH(2) by simp
      show ?thesis
      proof (cases r)
        case None
        then obtain xs where xs: "map fst xs = us" "st = reads xs"
          "logs' = ?logs2 @ map (mkLog p) (filter positive xs)"
          using IH(3) by auto
        have "map fst ((user, d, u) # xs) = user # us
            \<and> readPair (user, d, u) @ st = reads ((user, d, u) # xs)
            \<and> logs' = logs @ map (mkLog p) (filter positive ((user, d, u) # xs))"
          using xs by (simp add: reads_def)
        then have ex: "\<exists>xs'. map fst xs' = user # us
            \<and> readPair (user, d, u) @ st = reads xs'
            \<and> logs' = logs @ map (mkLog p) (filter positive xs')"
          by (rule exI[of _ "(user, d, u) # xs"])
        show ?thesis unfolding None option.case
          apply (rule exI[of _ w], rule exI[of _ "readPair (user, d, u) @ st"])
          apply (intro conjI)
            apply (rule p')
           apply (rule all)
          apply (rule ex)
          done
      next
        case (Some e)
        then have ex: "\<exists>c\<in>set (readPair (user, d, u) @ st). statsError c = Some e"
          using IH(3) by auto
        show ?thesis unfolding Some option.case
          apply (rule exI[of _ w], rule exI[of _ "readPair (user, d, u) @ st"])
          apply (intro conjI)
            apply (rule p')
           apply (rule all)
          apply (rule ex)
          done
      qed
    qed
  qed
qed

lemma mulTrafficRate_frame [simp]:
  "mulTrafficRate env (p\<lparr>world := w\<rparr>) = mulTrafficRate env p"
  "mulTrafficRate env (p\<lparr>trace := t\<rparr>) = mulTrafficRate env p"
  "mulTrafficRate env (p\<lparr>RetryTimes := n\<rparr>) = mulTrafficRate env p"
  by (simp_all add: mulTrafficRate_def fun_eq_iff)

lemma row_frame [simp]:
  "row env (p\<lparr>world := w\<rparr>) = row env p"
  "row env (p\<lparr>trace := t\<rparr>) = row env p"
  "row env (p\<lparr>RetryTimes := n\<rparr>) = row env p"
  by (simp_all add: row_def fun_eq_iff)

lemma rowEv_frame [simp]:
  "rowEv env (p\<lparr>world := w\<rparr>) = rowEv env p"
  "rowEv env (p\<lparr>trace := t\<rparr>) = rowEv env p"
  "rowEv env (p\<lparr>RetryTimes := n\<rparr>) = rowEv env p"
  by (simp_all add: fun_eq_iff)

lemma clause_frame [simp]:
  "uClause env (p\<lparr>world := w\<rparr>) = uClause env p"
  "uClause env (p\<lparr>trace := t\<rparr>) = uClause env p"
  "uClause env (p\<lparr>RetryTimes := n\<rparr>) = uClause env p"
  "dClause env (p\<lparr>world := w\<rparr>) = dClause env p"
  "dClause env (p\<lparr>trace := t\<rparr>) = dClause env p"
  "dClause env (p\<lparr>RetryTimes := n\<rparr>) = dClause env p"
  by (simp_all add: uClause_def dClause_def fun_eq_iff)

lemma logLoop_char:
  "logLoop env logs a p = (a', p') \<Longrightarrow>
     \<exists>w lrs. map fst lrs = logs
       \<and> p' = p\<lparr>world := w, trace := trace p @ map (rowEv env p) lrs\<rparr>
       \<and> onlineUsers a' = onlineUsers a + length (filter online logs)
       \<and> userIDs a' = userIDs a @ map (\<lambda>l. UserID (UserTrafficLog l)) logs
       \<and> uVals a' = uVals a @ concat (map (uClause env p) logs)
       \<and> dVals a' = dVals a @ concat (map (dClause env p) logs)"
proof (induction logs arbitrary: a p)
  case Nil
  then show ?case
    by (intro exI[of _ "world p"] exI[of _ "[]"]) simp
next
  case (Cons l logs)
  obtain r0 w0 where cr: "CreateUserTrafficLog env (row env p l) (world p) = (r0, w0)"
    by (cases "CreateUserTrafficLog env (row env p l) (world p)")
  define a3 where "a3 =
     a\<lparr>onlineUsers := onlineUsers a + (if online l then 1 else 0),
       uplinkTotal := uplinkTotal a + Uplink (UserTrafficLog l),
       downlinkTotal := downlinkTotal a + Downlink (UserTrafficLog l),
       userIDs := userIDs a @ [UserID (UserTrafficLog l)],
       uVals := uVals a @ uClause env p l,
       dVals := dVals a @ dClause env p l\<rparr>"
  let ?p1 = "p\<lparr>world := w0, trace := trace p @ [rowEv env p (l, r0)]\<rparr>"
  have step: "logLoop env logs a3 ?p1 = (a', p')"
    using Cons.prems cr
    by (simp add: issue_def Let_def a3_def row_def uClause_def dClause_def online_def
          split: if_splits)
  from Cons.IH[OF step] obtain w lrs where IH:
    "map fst lrs = logs"
    "p' = ?p1\<lparr>world := w, trace := trace ?p1 @ map (rowEv env ?p1) lrs\<rparr>"
    "onlineUsers a' = onlineUsers a3 + length (filter online logs)"
    "userIDs a' = userIDs a3 @ map (\<lambda>l. UserID (UserTrafficLog l)) logs"
    "uVals a' = uVals a3 @ concat (map (uClause env ?p1) logs)"
    "dVals a' = dVals a3 @ concat (map (dClause env ?p1) logs)"
    by blast
  show ?case
    apply (rule exI[of _ w], rule exI[of _ "(l, r0) # lrs"])
    using IH
    apply (simp add: a3_def del: rowEv.simps)
    done
qed

lemma isSync_delOk: "list_all isSync (delOk us)"
  by (induction us) (simp_all add: delOk_def)

lemma isSync_addOk: "list_all isSync (addOk p us)"
  by (induction us) (simp_all add: addOk_def)

lemma isSync_addStep: "list_all isSync (concat (map (addStep p) urs))"
proof (induction urs)
  case Nil
  show ?case by simp
next
  case (Cons ur urs)
  obtain u r where "ur = (u, r)" by (cases ur)
  then show ?case using Cons by (cases r) simp_all
qed

lemma addFailed_in_delOk: "(\<exists>c\<in>set (delOk us). addFailed c) = False"
  using addFailed_delOk by blast

lemma syncUser_shape:
  "\<exists>um w t. final (syncUser env p) = p\<lparr>userModels := um, world := w, trace := trace p @ t\<rparr>
      \<and> list_all isSync t
      \<and> ((\<exists>s. syncUser env p = Halted s)
           \<longleftrightarrow> \<not> IgnoreEmptyVmessID p \<and> (\<exists>c\<in>set t. addFailed c))"
proof -
  obtain r w1 where g: "GetAllUsers env (NodeID p) (world p) = (r, w1)"
    by (cases "GetAllUsers env (NodeID p) (world p)")
  have trivial: ?thesis
    if "syncUser env p = Returned x
          (p\<lparr>world := w1, trace := trace p @ [CGetAllUsers (NodeID p) r]\<rparr>)" for x
    apply (rule exI[of _ "userModels p"], rule exI[of _ w1],
           rule exI[of _ "[CGetAllUsers (NodeID p) r]"])
    using that by simp
  show ?thesis
  proof (cases r)
    case (Inl e)
    then have "syncUser env p = Returned (0, 0, Some e)
          (p\<lparr>world := w1, trace := trace p @ [CGetAllUsers (NodeID p) r]\<rparr>)"
      using g by (simp add: syncUser_def issue_def)
    then show ?thesis by (rule trivial)
  next
    case (Inr auth)
    show ?thesis
    proof (cases "auth = []")
      case True
      then have "syncUser env p = Returned (0, 0, None)
          (p\<lparr>world := w1, trace := trace p @ [CGetAllUsers (NodeID p) r]\<rparr>)"
        using g Inr by (simp add: syncUser_def issue_def)
      then show ?thesis by (rule trivial)
    next
      case False
      let ?dels = "filter (\<lambda>u. u \<notin> set auth) (userModels p)"
      let ?adds = "filter (\<lambda>u. u \<notin> set (userModels p)) auth"
      let ?keep = "filter (\<lambda>u. u \<in> set auth) (userModels p)"
      let ?g = "CGetAllUsers (NodeID p) (Inr auth)"
      have g': "GetAllUsers env (NodeID p) (world p) = (Inr auth, w1)"
        using g Inr by simp
      from syncUser_cases[OF g' False] consider
        (B) k e zs w where "syncUser env p = Returned (0, k, Some e)
          (p\<lparr>userModels := zs, world := w,
             trace := trace p @ ?g # delOk (take k ?dels) @ [CDelUser (Email (?dels ! k)) (Some e)]\<rparr>)"
      | (T) urs w where "IgnoreEmptyVmessID p"
         "syncUser env p =
            Returned (length (added urs), length ?dels, if urs = [] then None else snd (last urs))
              (p\<lparr>userModels := ?keep @ added urs, world := w,
                 trace := trace p @ ?g # delOk ?dels @ concat (map (addStep p) urs)\<rparr>)"
      | (S) w where "syncUser env p = Returned (length ?adds, length ?dels, None)
              (p\<lparr>userModels := ?keep @ ?adds, world := w,
                 trace := trace p @ ?g # delOk ?dels @ addOk p ?adds\<rparr>)"
      | (H) k e w where "\<not> IgnoreEmptyVmessID p" "syncUser env p = Halted
              (p\<lparr>userModels := ?keep @ take k ?adds, world := w,
                 trace := trace p @ ?g # delOk ?dels @ addOk p (take k ?adds)
                   @ [CAddUser (convertUser p (?adds ! k)) (Some e)]\<rparr>)"
        by blast
      then show ?thesis
      proof cases
        case B
        show ?thesis
          apply (rule exI[of _ zs], rule exI[of _ w],
             rule exI[of _ "?g # delOk (take k ?dels) @ [CDelUser (Email (?dels ! k)) (Some e)]"])
          unfolding B
          apply (simp add: isSync_delOk addFailed_in_delOk)
          done
      next
        case T
        show ?thesis
          apply (rule exI[of _ "?keep @ added urs"], rule exI[of _ w],
             rule exI[of _ "?g # delOk ?dels @ concat (map (addStep p) urs)"])
          unfolding T(2) using T(1)
          apply (simp add: isSync_delOk isSync_addStep)
          done
      next
        case S
        show ?thesis
          apply (rule exI[of _ "?keep @ ?adds"], rule exI[of _ w],
             rule exI[of _ "?g # delOk ?dels @ addOk p ?adds"])
          unfolding S
          apply (auto simp: isSync_delOk isSync_addOk dest: addFailed_delOk addFailed_addOk)
          done
      next
        case H
        show ?thesis
          apply (rule exI[of _ "?keep @ take k ?adds"], rule exI[of _ w],
             rule exI[of _ "?g # delOk ?dels @ addOk p (take k ?adds)
                   @ [CAddUser (convertUser p (?adds ! k)) (Some e)]"])
          unfolding H(2) using H(1)
          apply (simp add: isSync_delOk isSync_addOk)
          done
      qed
    qed
  qed
qed

lemma uClause_ne: "uClause env p l \<noteq> []" and dClause_ne: "dClause env p l \<noteq> []"
  by (simp_all add: uClause_def dClause_def)

lemma concat_clause_ne:
  "logs \<noteq> [] \<Longrightarrow> concat (map (uClause env p) logs) \<noteq> []"
  "logs \<noteq> [] \<Longrightarrow> concat (map (dClause env p) logs) \<noteq> []"
  by (cases logs; simp add: uClause_ne dClause_ne)+

lemma do_tail:
  assumes ll: "logLoop env logs acc0 p4 = (a, p5)"
  shows "\<exists>lrs onl upd w6 p7.
      map fst lrs = logs
    \<and> p7 = p4\<lparr>world := w6, trace := trace p4 @ map (rowEv env p4) lrs @ onl @ upd\<rparr>
    \<and> list_all isOnlineLog onl
    \<and> (if logs = [] then upd = [] else (\<exists>t r. upd = [bulk env p4 logs t r]))
    \<and> (let p6 = (if onlineUsers a > 0 then
                    snd (issue (CreateNodeOnlineLog env (NodeOnlineLog (NodeID p5) (onlineUsers a)))
                          (CCreateNodeOnlineLog (NodeOnlineLog (NodeID p5) (onlineUsers a))) p5)
                  else p5)
        in (if uVals a \<noteq> [] \<and> dVals a \<noteq> [] then
              snd (issue (Updates env (userIDs a)
                           (''CASE id '' @ uVals a @ '' END'')
                           (''CASE id '' @ dVals a @ '' END'')
                           (UnixNow env (world p6)))
                    (CUpdates (userIDs a)
                       (''CASE id '' @ uVals a @ '' END'')
                       (''CASE id '' @ dVals a @ '' END'')
                       (UnixNow env (world p6))) p6)
            else p6)) = p7"
proof -
  from logLoop_char[OF ll] obtain w lrs where c:
    "map fst lrs = logs"
    "p5 = p4\<lparr>world := w, trace := trace p4 @ map (rowEv env p4) lrs\<rparr>"
    "userIDs a = map (\<lambda>l. UserID (UserTrafficLog l)) logs"
    "uVals a = concat (map (uClause env p4) logs)"
    "dVals a = concat (map (dClause env p4) logs)"
    by (auto simp: acc0_def)
  define p6 where "p6 = (if onlineUsers a > 0 then
                    snd (issue (CreateNodeOnlineLog env (NodeOnlineLog (NodeID p5) (onlineUsers a)))
                          (CCreateNodeOnlineLog (NodeOnlineLog (NodeID p5) (onlineUsers a))) p5)
                  else p5)"
  have "\<exists>onl w'. p6 = p5\<lparr>world := w', trace := trace p5 @ onl\<rparr> \<and> list_all isOnlineLog onl"
  proof (cases "onlineUsers a > 0")
    case True
    obtain r w' where "CreateNodeOnlineLog env (NodeOnlineLog (NodeID p5) (onlineUsers a)) (world p5) = (r, w')"
      by (cases "CreateNodeOnlineLog env (NodeOnlineLog (NodeID p5) (onlineUsers a)) (world p5)")
    then have "p6 = p5\<lparr>world := w',
        trace := trace p5 @ [CCreateNodeOnlineLog (NodeOnlineLog (NodeID p5) (onlineUsers a)) r]\<rparr>"
      using True by (simp add: p6_def issue_def)
    then show ?thesis
      by (intro exI[of _ "[CCreateNodeOnlineLog (NodeOnlineLog (NodeID p5) (onlineUsers a)) r]"]
            exI[of _ w']) simp
  next
    case False
    then have "p6 = p5\<lparr>world := world p5, trace := trace p5 @ []\<rparr>"
      by (simp add: p6_def)
    then show ?thesis
      by (intro exI[of _ "[]"] exI[of _ "world p5"]) simp
  qed
  then obtain onl w' where p6: "p6 = p5\<lparr>world := w', trace := trace p5 @ onl\<rparr>"
    and onl: "list_all isOnlineLog onl" by blast
  define p7 where "p7 = (if uVals a \<noteq> [] \<and> dVals a \<noteq> [] then
              snd (issue (Updates env (userIDs a)
                           (''CASE id '' @ uVals a @ '' END'')
                           (''CASE id '' @ dVals a @ '' END'')
                           (UnixNow env (world p6)))
                    (CUpdates (userIDs a)
                       (''CASE id '' @ uVals a @ '' END'')
                       (''CASE id '' @ dVals a @ '' END'')
                       (UnixNow env (world p6))) p6)
            else p6)"
  have "\<exists>upd w6. p7 = p6\<lparr>world := w6, trace := trace p6 @ upd\<rparr>
      \<and> (if logs = [] then upd = [] else (\<exists>t r. upd = [bulk env p4 logs t r]))"
  proof (cases "logs = []")
    case True
    then have "p7 = p6\<lparr>world := world p6, trace := trace p6 @ []\<rparr>"
      using c by (simp add: p7_def)
    then show ?thesis using True
      by (intro exI[of _ "[]"] exI[of _ "world p6"]) simp
  next
    case False
    have ne: "uVals a \<noteq> [] \<and> dVals a \<noteq> []"
      unfolding c(4,5) using concat_clause_ne[OF False, of env p4] by blast
    obtain r w6 where "Updates env (userIDs a)
                           (''CASE id '' @ uVals a @ '' END'')
                           (''CASE id '' @ dVals a @ '' END'')
                           (UnixNow env (world p6)) (world p6) = (r, w6)"
      by (cases "Updates env (userIDs a)
                           (''CASE id '' @ uVals a @ '' END'')
                           (''CASE id '' @ dVals a @ '' END'')
                           (UnixNow env (world p6)) (world p6)")
    then have "p7 = p6\<lparr>world := w6,
         trace := trace p6 @ [bulk env p4 logs (UnixNow env (world p6)) r]\<rparr>"
      using ne c(3,4,5) by (simp add: p7_def issue_def bulk_def)
    then show ?thesis using False
      by (intro exI[of _ "[bulk env p4 logs (UnixNow env (world p6)) r]"] exI[of _ w6]) auto
  qed
  then obtain upd w6 where p7: "p7 = p6\<lparr>world := w6, trace := trace p6 @ upd\<rparr>"
    and upd: "(if logs = [] then upd = [] else (\<exists>t r. upd = [bulk env p4 logs t r]))" by blast
  have shape: "p7 = p4\<lparr>world := w6, trace := trace p4 @ map (rowEv env p4) lrs @ onl @ upd\<rparr>"
    unfolding p7 p6 c(2) by simp
  show ?thesis
    apply (rule exI[of _ lrs], rule exI[of _ onl], rule exI[of _ upd], rule exI[of _ w6],
           rule exI[of _ p7])
    apply (intro conjI)
        apply (rule c(1))
       apply (rule shape)
      apply (rule onl)
     apply (rule upd)
    apply (simp only: Let_def p6_def[symmetric] p7_def[symmetric])
    done
qed

lemma do_cases:
  "(\<exists>e. result (do env p) = Some None
        \<and> fst (Ping env (world p)) = Some e
        \<and> issued p (final (do env p)) =
             [CPing (Some e), CLog AtDebug (LostDbConnection (sint (RetryTimes p + 1)))]
        \<and> userModels (final (do env p)) = userModels p
        \<and> RetryTimes (final (do env p)) = RetryTimes p + 1)
   \<or> (\<exists>e info m. result (do env p) = Some (Some e)
        \<and> fst (Ping env (world p)) = None
        \<and> issued p (final (do env p)) =
             [CPing None, CCreateNodeInfo info (Some e), CLog AtDebug m]
        \<and> userModels (final (do env p)) = userModels p
        \<and> RetryTimes (final (do env p)) = 0)
   \<or> (\<exists>e info st m. result (do env p) = Some (Some e)
        \<and> fst (Ping env (world p)) = None
        \<and> issued p (final (do env p)) =
             CPing None # CCreateNodeInfo info None # st @ [CLog AtDebug m]
        \<and> list_all isStats st \<and> (\<exists>c\<in>set st. statsError c = Some e)
        \<and> userModels (final (do env p)) = userModels p
        \<and> RetryTimes (final (do env p)) = 0)
   \<or> (\<exists>info xs lrs onl upd syn fin.
          fst (Ping env (world p)) = None
        \<and> issued p (final (do env p)) =
             CPing None # CCreateNodeInfo info None # reads xs @ map (rowEv env p) lrs
               @ onl @ upd @ syn @ fin
        \<and> map fst xs = userModels p
        \<and> map fst lrs = map (mkLog p) (filter positive xs)
        \<and> list_all isOnlineLog onl
        \<and> (if filter positive xs = [] then upd = []
            else (\<exists>t r. upd = [bulk env p (map (mkLog p) (filter positive xs)) t r]))
        \<and> list_all isSync syn
        \<and> (if \<not> IgnoreEmptyVmessID p \<and> (\<exists>c\<in>set syn. addFailed c)
            then result (do env p) = None \<and> fin = []
            else result (do env p) = Some None \<and> (\<exists>m. fin = [CLog AtDebug m]))
        \<and> RetryTimes (final (do env p)) = 0)"
  (is "?P \<or> ?I \<or> ?G \<or> ?A")
proof -
  obtain r1 w1 where pg: "Ping env (world p) = (r1, w1)"
    by (cases "Ping env (world p)")
  show ?thesis
  proof (cases r1)
    case (Some e)
    have "do env p = Returned None
       (p\<lparr>world := w1, RetryTimes := RetryTimes p + 1,
          trace := trace p @ [CPing (Some e), CLog AtDebug (LostDbConnection (sint (RetryTimes p + 1)))]\<rparr>)"
      using pg Some by (simp add: do_def issue_def WriteToLog_def)
    then have ?P using pg Some
      by (intro exI[of _ e]) (simp add: issued_def)
    then show ?thesis by (rule disjI1)
  next
    case None
    define info where "info = NodeInfo (NodeID p) (Uptime env w1) (getSystemLoad env w1)"
    obtain r2 w2 where ci: "CreateNodeInfo env info w1 = (r2, w2)"
      by (cases "CreateNodeInfo env info w1")
    show ?thesis
    proof (cases r2)
      case (Some e)
      have "do env p = Returned (Some e)
         (summary env 0 0 acc0 (p\<lparr>RetryTimes := 0, world := w2,
            trace := trace p @ [CPing None, CCreateNodeInfo info (Some e)]\<rparr>))"
        using pg None ci Some by (simp add: do_def issue_def info_def)
      then have ?I using pg None
        by (intro exI[of _ e] exI[of _ info]
             exI[of _ "CycleSummary 0 0 (ByteSize env (downlinkTotal acc0))
                        (ByteSize env (uplinkTotal acc0)) (onlineUsers acc0)"])
           (simp add: issued_def summary_def WriteToLog_def)
      then show ?thesis by (rule disjI2[OF disjI1])
    next
      case N2: None
      define p3 where "p3 = p\<lparr>RetryTimes := 0, world := w2,
            trace := trace p @ [CPing None, CCreateNodeInfo info None]\<rparr>"
      obtain logs r3 p4 where gt: "getTraffic env p3 = (logs, r3, p4)"
        by (cases "getTraffic env p3") auto
      have du: "do env p =
                  (case (logs, r3, p4) of
                     (logs, Some e, p4) \<Rightarrow> Returned (Some e) (summary env 0 0 acc0 p4)
                   | (userTrafficLogs, None, p4) \<Rightarrow>
                       (let (a, p5) = logLoop env userTrafficLogs acc0 p4;
                            p6 = (if onlineUsers a > 0 then
                                    snd (issue (CreateNodeOnlineLog env
                                                 (NodeOnlineLog (NodeID p5) (onlineUsers a)))
                                          (CCreateNodeOnlineLog
                                             (NodeOnlineLog (NodeID p5) (onlineUsers a))) p5)
                                  else p5);
                            p7 = (if uVals a \<noteq> [] \<and> dVals a \<noteq> [] then
                                    snd (issue (Updates env (userIDs a)
                                                 (''CASE id '' @ uVals a @ '' END'')
                                                 (''CASE id '' @ dVals a @ '' END'')
                                                 (UnixNow env (world p6)))
                                          (CUpdates (userIDs a)
                                             (''CASE id '' @ uVals a @ '' END'')
                                             (''CASE id '' @ dVals a @ '' END'')
                                             (UnixNow env (world p6))) p6)
                                  else p6)
                        in case syncUser env p7 of
                             Returned (addedUserCount, deletedUserCount, err) p8 \<Rightarrow>
                               Returned None (summary env addedUserCount deletedUserCount a p8)
                           | Halted p8 \<Rightarrow> Halted p8))"
        using pg None ci N2 gt[unfolded p3_def]
        by (simp add: do_def issue_def info_def del: Let_def split_paired_All)
      from gt obtain w st where
        p4: "p4 = p3\<lparr>world := w, trace := trace p3 @ st\<rparr>" and st: "list_all isStats st"
        and r3: "(case r3 of
          None \<Rightarrow> \<exists>xs. map fst xs = userModels p3 \<and> st = reads xs
                     \<and> logs = [] @ map (mkLog p3) (filter positive xs)
        | Some e \<Rightarrow> \<exists>c\<in>set st. statsError c = Some e)"
        unfolding getTraffic_def using getTrafficLoop_char by blast
      have p4': "p4 = p\<lparr>RetryTimes := 0, world := w,
            trace := trace p @ CPing None # CCreateNodeInfo info None # st\<rparr>"
        unfolding p4 p3_def by simp
      show ?thesis
      proof (cases r3)
        case (Some e)
        have "do env p = Returned (Some e) (summary env 0 0 acc0 p4)"
          using du Some by simp
        then have ?G using st r3 Some pg None
          unfolding p4'
          by (intro exI[of _ e] exI[of _ info] exI[of _ st]
             exI[of _ "CycleSummary 0 0 (ByteSize env (downlinkTotal acc0))
                        (ByteSize env (uplinkTotal acc0)) (onlineUsers acc0)"])
           (simp add: issued_def summary_def WriteToLog_def)
        then show ?thesis by (rule disjI2[OF disjI2[OF disjI1]])
      next
        case N3: None
        then obtain xs where xs: "map fst xs = userModels p" "st = reads xs"
          "logs = map (mkLog p) (filter positive xs)"
          using r3 by (auto simp: p3_def)
        obtain a p5 where ll: "logLoop env logs acc0 p4 = (a, p5)"
          by (cases "logLoop env logs acc0 p4")
        from do_tail[OF ll] obtain lrs onl upd w6 p7 where
          lrs: "map fst lrs = logs"
          and p7: "p7 = p4\<lparr>world := w6, trace := trace p4 @ map (rowEv env p4) lrs @ onl @ upd\<rparr>"
          and onl: "list_all isOnlineLog onl"
          and upd: "(if logs = [] then upd = [] else (\<exists>t r. upd = [bulk env p4 logs t r]))"
          and eq7: "(let p6 = (if onlineUsers a > 0 then
                    snd (issue (CreateNodeOnlineLog env (NodeOnlineLog (NodeID p5) (onlineUsers a)))
                          (CCreateNodeOnlineLog (NodeOnlineLog (NodeID p5) (onlineUsers a))) p5)
                  else p5)
        in (if uVals a \<noteq> [] \<and> dVals a \<noteq> [] then
              snd (issue (Updates env (userIDs a)
                           (''CASE id '' @ uVals a @ '' END'')
                           (''CASE id '' @ dVals a @ '' END'')
                           (UnixNow env (world p6)))
                    (CUpdates (userIDs a)
                       (''CASE id '' @ uVals a @ '' END'')
                       (''CASE id '' @ dVals a @ '' END'')
                       (UnixNow env (world p6))) p6)
            else p6)) = p7"
          by blast
        have du2: "do env p =
           (case syncUser env p7 of
              Returned (addedUserCount, deletedUserCount, err) p8 \<Rightarrow>
                 Returned None (summary env addedUserCount deletedUserCount a p8)
            | Halted p8 \<Rightarrow> Halted p8)"
          unfolding du N3 using ll eq7 by (simp add: Let_def)
        from syncUser_shape[of env p7] obtain um w8 syn where
          f8: "final (syncUser env p7) = p7\<lparr>userModels := um, world := w8, trace := trace p7 @ syn\<rparr>"
          and syn: "list_all isSync syn"
          and halt: "(\<exists>s. syncUser env p7 = Halted s)
                      \<longleftrightarrow> \<not> IgnoreEmptyVmessID p7 \<and> (\<exists>c\<in>set syn. addFailed c)"
          by blast
        have p7': "p7 = p\<lparr>RetryTimes := 0, world := w6,
            trace := trace p @ CPing None # CCreateNodeInfo info None # reads xs
               @ map (rowEv env p) lrs @ onl @ upd\<rparr>"
          unfolding p7 p4' xs(2) by simp
        have ig: "IgnoreEmptyVmessID p7 = IgnoreEmptyVmessID p"
          unfolding p7' by simp
        have bulk_eq: "bulk env p4 = bulk env p"
          unfolding p4' by (simp add: bulk_def fun_eq_iff)
        have upd': "(if filter positive xs = [] then upd = []
            else (\<exists>t r. upd = [bulk env p (map (mkLog p) (filter positive xs)) t r]))"
          using upd unfolding bulk_eq xs(3) by simp
        have lrs': "map fst lrs = map (mkLog p) (filter positive xs)"
          using lrs xs(3) by simp
        show ?thesis
        proof (cases "syncUser env p7")
          case (Returned x p8)
          obtain ac dc er where x: "x = (ac, dc, er)" by (cases x)
          have p8: "p8 = p7\<lparr>userModels := um, world := w8, trace := trace p7 @ syn\<rparr>"
            using f8 Returned by simp
          have nh: "\<not> (\<not> IgnoreEmptyVmessID p \<and> (\<exists>c\<in>set syn. addFailed c))"
            using halt Returned ig by simp
          have d: "do env p = Returned None (summary env ac dc a p8)"
            using du2 Returned x by simp
          have ?A
            apply (rule exI[of _ info], rule exI[of _ xs], rule exI[of _ lrs], rule exI[of _ onl],
                   rule exI[of _ upd], rule exI[of _ syn],
                   rule exI[of _ "[CLog AtDebug (CycleSummary ac dc (ByteSize env (downlinkTotal a))
                        (ByteSize env (uplinkTotal a)) (onlineUsers a))]"])
            apply (intro conjI)
                    apply (simp add: pg None)
                   apply (simp add: d p8 p7' issued_def summary_def WriteToLog_def)
                  apply (rule xs(1))
                 apply (rule lrs')
                apply (rule onl)
               apply (rule upd')
              apply (rule syn)
             apply (simp add: nh d)
            apply (simp add: d p8 p7' summary_def WriteToLog_def)
            done
          then show ?thesis by (rule disjI2[OF disjI2[OF disjI2]])
        next
          case (Halted p8)
          have p8: "p8 = p7\<lparr>userModels := um, world := w8, trace := trace p7 @ syn\<rparr>"
            using f8 Halted by simp
          have h: "\<not> IgnoreEmptyVmessID p \<and> (\<exists>c\<in>set syn. addFailed c)"
            using halt Halted ig by simp
          have d: "do env p = Halted p8"
            using du2 Halted by simp
          have ?A
            apply (rule exI[of _ info], rule exI[of _ xs], rule exI[of _ lrs], rule exI[of _ onl],
                   rule exI[of _ upd], rule exI[of _ syn], rule exI[of _ "[]"])
            apply (intro conjI)
                    apply (simp add: pg None)
                   apply (simp add: d p8 p7' issued_def)
                  apply (rule xs(1))
                 apply (rule lrs')
                apply (rule onl)
               apply (rule upd')
              apply (rule syn)
             apply (simp add: h d)
            apply (simp add: d p8 p7')
            done
          then show ?thesis by (rule disjI2[OF disjI2[OF disjI2]])
        qed
      qed
    qed
  qed
qed

lemma reads_class:
  assumes "\<And>m d. \<not> Q (CGetUserDownlink m (Inr d))" "\<And>m u. \<not> Q (CGetUserUplink m (Inr u))"
  shows "filter Q (reads xs) = []"
proof (induction xs)
  case Nil
  show ?case by (simp add: reads_def)
next
  case (Cons x xs)
  obtain user d u where "x = (user, d, u)" by (cases x)
  then show ?case using Cons assms by (simp add: reads_def)
qed

lemma rows_class:
  assumes "\<And>l r. \<not> Q (CCreateUserTrafficLog l r)"
  shows "filter Q (map (rowEv env p) lrs) = []"
proof (induction lrs)
  case Nil
  show ?case by simp
next
  case (Cons x xs)
  obtain l r where "x = (l, r)" by (cases x)
  then show ?case using Cons assms by simp
qed

lemma class_disjoint:
  assumes "list_all K t" "\<And>c. K c \<Longrightarrow> \<not> Q c"
  shows "filter Q t = []"
  using assms by (induction t) auto

lemma filter_reads_isStats: "filter isStats (reads xs) = reads xs"
proof (induction xs)
  case Nil
  show ?case by (simp add: reads_def)
next
  case (Cons x xs)
  obtain user d u where "x = (user, d, u)" by (cases x)
  then show ?case using Cons by (simp add: reads_def)
qed

lemma isOnlineLog_not:
  "isOnlineLog c \<Longrightarrow> \<not> isStats c" "isOnlineLog c \<Longrightarrow> \<not> isUpdates c"
  "isOnlineLog c \<Longrightarrow> \<not> addFailed c" "isOnlineLog c \<Longrightarrow> statsError c = None"
  by (cases c; simp)+

lemma isSync_not:
  "isSync c \<Longrightarrow> \<not> isStats c" "isSync c \<Longrightarrow> \<not> isUpdates c"
  "isSync c \<Longrightarrow> statsError c = None"
  by (cases c; simp)+

lemma isStats_not:
  "isStats c \<Longrightarrow> \<not> isUpdates c" "isStats c \<Longrightarrow> \<not> isOnlineLog c"
  "isStats c \<Longrightarrow> \<not> isFetch c" "isStats c \<Longrightarrow> \<not> isAdmin c" "isStats c \<Longrightarrow> \<not> isRow c"
  by (cases c; simp)+

lemma upd_class:
  assumes "if logs = [] then upd = [] else (\<exists>t r. upd = [bulk env p logs' t r])"
    and "\<And>ids u d t r. \<not> Q (CUpdates ids u d t r)"
  shows "filter Q upd = []"
  using assms by (auto simp: bulk_def split: if_splits)

lemma filter_Bex: "(\<exists>c\<in>set t. Q c) = (filter Q t \<noteq> [])"
  by (simp add: filter_empty_conv)

lemma fin_class:
  assumes "fin = [] \<or> (\<exists>m. fin = [CLog AtDebug m])" "\<And>s m. \<not> Q (CLog s m)"
  shows "filter Q fin = []"
  using assms by auto

lemma isOnlineLog_not_addFailed: "isOnlineLog c \<Longrightarrow> \<not> addFailed c"
  by (cases c) simp_all

lemma filter_isUpdates_upd:
  assumes "if logs = [] then upd = [] else (\<exists>t r. upd = [bulk env p logs' t r])"
  shows "filter isUpdates upd = upd"
  using assms by (auto simp: bulk_def split: if_splits)

lemma do_collected:
  assumes ping: "CPing None \<in> set (issued p (final (do env p)))"
    and hb: "\<exists>info. CCreateNodeInfo info None \<in> set (issued p (final (do env p)))"
    and ok: "\<forall>c\<in>set (issued p (final (do env p))). statsError c = None"
  shows "\<exists>info xs lrs onl upd syn fin.
          issued p (final (do env p)) =
             CPing None # CCreateNodeInfo info None # reads xs @ map (rowEv env p) lrs
               @ onl @ upd @ syn @ fin
        \<and> map fst xs = userModels p
        \<and> map fst lrs = map (mkLog p) (filter positive xs)
        \<and> list_all isOnlineLog onl
        \<and> (if filter positive xs = [] then upd = []
            else (\<exists>t r. upd = [bulk env p (map (mkLog p) (filter positive xs)) t r]))
        \<and> list_all isSync syn
        \<and> (if \<not> IgnoreEmptyVmessID p \<and> (\<exists>c\<in>set syn. addFailed c)
            then result (do env p) = None \<and> fin = []
            else result (do env p) = Some None \<and> (\<exists>m. fin = [CLog AtDebug m]))
        \<and> RetryTimes (final (do env p)) = 0"
proof -
  from do_cases[of env p] consider
    (P) e where "issued p (final (do env p)) =
             [CPing (Some e), CLog AtDebug (LostDbConnection (sint (RetryTimes p + 1)))]"
  | (I) e info m where "issued p (final (do env p)) =
             [CPing None, CCreateNodeInfo info (Some e), CLog AtDebug m]"
  | (G) e info st m where "issued p (final (do env p)) =
             CPing None # CCreateNodeInfo info None # st @ [CLog AtDebug m]"
       "\<exists>c\<in>set st. statsError c = Some e"
  | (A) "\<exists>info xs lrs onl upd syn fin.
          issued p (final (do env p)) =
             CPing None # CCreateNodeInfo info None # reads xs @ map (rowEv env p) lrs
               @ onl @ upd @ syn @ fin
        \<and> map fst xs = userModels p
        \<and> map fst lrs = map (mkLog p) (filter positive xs)
        \<and> list_all isOnlineLog onl
        \<and> (if filter positive xs = [] then upd = []
            else (\<exists>t r. upd = [bulk env p (map (mkLog p) (filter positive xs)) t r]))
        \<and> list_all isSync syn
        \<and> (if \<not> IgnoreEmptyVmessID p \<and> (\<exists>c\<in>set syn. addFailed c)
            then result (do env p) = None \<and> fin = []
            else result (do env p) = Some None \<and> (\<exists>m. fin = [CLog AtDebug m]))
        \<and> RetryTimes (final (do env p)) = 0"
    by blast
  then show ?thesis
  proof cases
    case P
    then show ?thesis using ping by simp
  next
    case I
    then show ?thesis using hb by simp
  next
    case G
    then show ?thesis using ok by auto
  next
    case A
    then show ?thesis .
  qed
qed

lemma do_ping_failed:
  assumes "fst (Ping env (world p)) = Some e"
  shows "do env p = Returned None
       (p\<lparr>world := snd (Ping env (world p)), RetryTimes := RetryTimes p + 1,
          trace := trace p @ [CPing (Some e), CLog AtDebug (LostDbConnection (sint (RetryTimes p + 1)))]\<rparr>)"
  using assms
  by (cases "Ping env (world p)") (simp add: do_def issue_def WriteToLog_def)

lemma do_retry_reset:
  assumes "fst (Ping env (world p)) = None"
  shows "RetryTimes (final (do env p)) = 0"
  using do_cases[of env p] assms by (elim disjE exE conjE) simp_all

lemma no_statsError_collected:
  assumes T: "t = CPing None # CCreateNodeInfo info None # reads xs @ map (rowEv env p) lrs
               @ onl @ upd @ syn @ fin"
      and onl: "list_all isOnlineLog onl"
      and upd: "(if filter positive xs = [] then upd = []
            else (\<exists>t r. upd = [bulk env p (map (mkLog p) (filter positive xs)) t r]))"
      and syn: "list_all isSync syn"
      and fin: "fin = [] \<or> (\<exists>m. fin = [CLog AtDebug m])"
  shows "filter (\<lambda>c. statsError c \<noteq> None) t = []"
proof -
  let ?Q = "\<lambda>c. statsError c \<noteq> None"
  have "filter ?Q (reads xs) = []" by (rule reads_class) simp_all
  moreover have "filter ?Q (map (rowEv env p) lrs) = []" by (rule rows_class) simp
  moreover have "filter ?Q onl = []"
    by (rule class_disjoint[OF onl]) (simp add: isOnlineLog_not)
  moreover have "filter ?Q upd = []" by (rule upd_class[OF upd]) simp
  moreover have "filter ?Q syn = []"
    by (rule class_disjoint[OF syn]) (simp add: isSync_not)
  moreover have "filter ?Q fin = []" using fin by auto
  ultimately show ?thesis unfolding T by simp
qed

text \<open>
  A cycle that does not get past its ping, its heartbeat insert and its stats reads issues
  no bulk update.
\<close>

lemma do_aborted:
  assumes n: "\<not> (CPing None \<in> set (issued p (final (do env p)))
        \<and> (\<exists>info. CCreateNodeInfo info None \<in> set (issued p (final (do env p))))
        \<and> (\<forall>c\<in>set (issued p (final (do env p))). statsError c = None))"
  shows "filter isUpdates (issued p (final (do env p))) = []"
proof -
  from do_cases[of env p] consider
    (P) e where "issued p (final (do env p)) =
             [CPing (Some e), CLog AtDebug (LostDbConnection (sint (RetryTimes p + 1)))]"
  | (I) e info m where "issued p (final (do env p)) =
             [CPing None, CCreateNodeInfo info (Some e), CLog AtDebug m]"
  | (G) info st m where "issued p (final (do env p)) =
             CPing None # CCreateNodeInfo info None # st @ [CLog AtDebug m]"
       "list_all isStats st"
  | (A) info xs lrs onl upd syn fin where
        "issued p (final (do env p)) =
             CPing None # CCreateNodeInfo info None # reads xs @ map (rowEv env p) lrs
               @ onl @ upd @ syn @ fin"
        "list_all isOnlineLog onl"
        "(if filter positive xs = [] then upd = []
            else (\<exists>t r. upd = [bulk env p (map (mkLog p) (filter positive xs)) t r]))"
        "list_all isSync syn"
        "(if \<not> IgnoreEmptyVmessID p \<and> (\<exists>c\<in>set syn. addFailed c)
            then result (do env p) = None \<and> fin = []
            else result (do env p) = Some None \<and> (\<exists>m. fin = [CLog AtDebug m]))"
    by blast
  then show ?thesis
  proof cases
    case P
    then show ?thesis by simp
  next
    case I
    then show ?thesis by simp
  next
    case G
    have "filter isUpdates st = []"
      by (rule class_disjoint[OF G(2)]) (simp add: isStats_not)
    then show ?thesis unfolding G(1) by simp
  next
    case A
    have fin: "fin = [] \<or> (\<exists>m. fin = [CLog AtDebug m])"
      using A(5) by (simp split: if_splits)
    have "filter (\<lambda>c. statsError c \<noteq> None) (issued p (final (do env p))) = []"
      by (rule no_statsError_collected[OF A(1) A(2) A(3) A(4) fin])
    then have ok: "\<forall>c\<in>set (issued p (final (do env p))). statsError c = None"
      unfolding filter_empty_conv by simp
    have ping: "CPing None \<in> set (issued p (final (do env p)))"
      unfolding A(1) by simp
    have hb: "\<exists>info. CCreateNodeInfo info None \<in> set (issued p (final (do env p)))"
      unfolding A(1) by (rule exI[of _ info]) simp
    from n ping hb ok show ?thesis by blast
  qed
qed

text \<open>
  What \<^verbatim>\<open>++\<close> does to a signed word, and the test of \<^verbatim>\<open>getTraffic\<close> read on natural
  numbers.
\<close>

lemma sint_succ:
  fixes x :: "'n::len word"
  shows "(if sint x = 2 ^ (LENGTH('n) - 1) - 1
          then sint (x + 1) = - (2 ^ (LENGTH('n) - 1))
          else sint (x + 1) = sint x + 1)"
proof -
  have "x + 1 = word_of_int (sint x + 1)" by simp
  then have "sint (x + 1) = sint (word_of_int (sint x + 1) :: 'n word)" by simp
  then have eq: "sint (x + 1) = signed_take_bit (LENGTH('n) - 1) (sint x + 1)"
    by (simp only: sint_sbintrunc')
  show ?thesis
  proof (cases "sint x = 2 ^ (LENGTH('n) - 1) - 1")
    case True
    have "signed_take_bit m ((2::int) ^ m) = - (2 ^ m)" for m
      by (simp add: signed_take_bit_eq_take_bit_shift take_bit_eq_mod)
    then show ?thesis using True eq by simp
  next
    case False
    have "sint x < 2 ^ (LENGTH('n) - 1)" by (rule sint_lt)
    then have lt: "sint x + 1 < 2 ^ (LENGTH('n) - 1)" using False by simp
    have "- (2 ^ (LENGTH('n) - 1)) \<le> sint x" by (rule sint_ge)
    then have ge: "- (2 ^ (LENGTH('n) - 1)) \<le> sint x + 1" by simp
    have "signed_take_bit (LENGTH('n) - 1) (sint x + 1) = sint x + 1"
      using ge lt by (rule signed_take_bit_int_eq_self)
    then show ?thesis using False eq by simp
  qed
qed

lemma positive_unat:
  "positive (user, d, u) = (0 < (unat u + unat d) mod 2 ^ 64)"
  by (simp add: word_less_nat_alt unat_word_ariths)

subsection \<open>The concrete node, evaluated\<close>

lemmas demo_defs = demoEnv_def demoPanel_def alice_def alice2_def bob_def carol_def dave_def

lemmas run_defs = syncUser_def issue_def WriteToLog_def addUserModels_def delUserModels_def
  inUserModels_def findUserModelIndex_def convertUser_def Let_def

lemma demo_sync_change:
  "syncUser (demoEnv None None None [] (Inr [alice2, carol]) [] []) (demoPanel False [alice, bob]) =
     Returned (2, 2, None)
       ((demoPanel False [alice2, carol])
          \<lparr>trace := [CGetAllUsers 1 (Inr [alice2, carol]),
                     CDelUser ''alice'' None, CLog AtDebug (DeletedUser alice),
                     CDelUser ''bob'' None, CLog AtDebug (DeletedUser bob),
                     CAddUser (User 0 ''alice'' (VmessAccount ''key-b'' 1 0)) None,
                     CLog AtDebug (AddedUser alice2),
                     CAddUser (User 0 ''carol'' (VmessAccount ''key-d'' 1 0)) None,
                     CLog AtDebug (AddedUser carol)]\<rparr>)"
  by (simp add: demo_defs run_defs)

lemma demo_sync_empty:
  "syncUser (demoEnv None None None [] (Inr []) [] []) (demoPanel False [alice, bob]) =
     Returned (0, 0, None) ((demoPanel False [alice, bob])\<lparr>trace := [CGetAllUsers 1 (Inr [])]\<rparr>)"
  by (simp add: demo_defs run_defs)

lemma demo_sync_del_fails:
  "syncUser (demoEnv None None None [] (Inr [carol]) [''bob''] []) (demoPanel False [alice, bob, dave]) =
     Returned (0, 1, Some ''remove failed'')
       ((demoPanel False [dave])
          \<lparr>trace := [CGetAllUsers 1 (Inr [carol]),
                     CDelUser ''alice'' None, CLog AtDebug (DeletedUser alice),
                     CDelUser ''bob'' (Some ''remove failed'')]\<rparr>)"
  by (simp add: demo_defs run_defs)

lemma demo_sync_tolerant:
  "syncUser (demoEnv None None None [] (Inr [alice2, carol, dave]) [] [''carol'']) (demoPanel True [alice]) =
     Returned (2, 1, None)
       ((demoPanel True [alice2, dave])
          \<lparr>trace := [CGetAllUsers 1 (Inr [alice2, carol, dave]),
                     CDelUser ''alice'' None, CLog AtDebug (DeletedUser alice),
                     CAddUser (User 0 ''alice'' (VmessAccount ''key-b'' 1 0)) None,
                     CLog AtDebug (AddedUser alice2),
                     CAddUser (User 0 ''carol'' (VmessAccount ''key-d'' 1 0)) (Some ''add failed''),
                     CLog AtWarning (AddUserErr ''add failed'' carol),
                     CAddUser (User 0 ''dave'' (VmessAccount ''key-e'' 1 0)) None,
                     CLog AtDebug (AddedUser dave)]\<rparr>)"
  by (simp add: demo_defs run_defs)

lemma demo_sync_strict:
  "syncUser (demoEnv None None None [] (Inr [alice2, carol, dave]) [] [''carol'']) (demoPanel False [alice]) =
     Halted
       ((demoPanel False [alice2])
          \<lparr>trace := [CGetAllUsers 1 (Inr [alice2, carol, dave]),
                     CDelUser ''alice'' None, CLog AtDebug (DeletedUser alice),
                     CAddUser (User 0 ''alice'' (VmessAccount ''key-b'' 1 0)) None,
                     CLog AtDebug (AddedUser alice2),
                     CAddUser (User 0 ''carol'' (VmessAccount ''key-d'' 1 0)) (Some ''add failed'')]\<rparr>)"
  by (simp add: demo_defs run_defs)

lemmas cycle_defs = do_def getTraffic_def summary_def acc0_def mulTrafficRate_def digit_def

lemma demo_do_stats_fail:
  "do (demoEnv None None None
         [(''alice'', Inr 700, Inr 1500), (''bob'', Inl ''stats down'', Inr 0)] (Inr [carol]) [] [])
      (demoPanel False [alice, bob]) =
   Returned (Some ''stats down'')
     ((demoPanel False [alice, bob])
        \<lparr>RetryTimes := 0,
         trace := [CPing None, CCreateNodeInfo (NodeInfo 1 60 ''0.00 0.00 0.00'') None,
                   CGetUserDownlink ''alice'' (Inr 700), CGetUserUplink ''alice'' (Inr 1500),
                   CGetUserDownlink ''bob'' (Inl ''stats down''),
                   CLog AtDebug (CycleSummary 0 0 ''0B'' ''0B'' 0)]\<rparr>)"
  by (simp add: demo_defs run_defs cycle_defs showNat.simps)

lemma demo_do_fatal:
  "do (demoEnv None None None [] (Inr [alice2, carol, dave]) [] [''carol''])
      (demoPanel False [alice]) =
   Halted
     ((demoPanel False [alice2])
        \<lparr>RetryTimes := 0,
         trace := [CPing None, CCreateNodeInfo (NodeInfo 1 60 ''0.00 0.00 0.00'') None,
                   CGetUserDownlink ''alice'' (Inr 0), CGetUserUplink ''alice'' (Inr 0),
                   CGetAllUsers 1 (Inr [alice2, carol, dave]),
                   CDelUser ''alice'' None, CLog AtDebug (DeletedUser alice),
                   CAddUser (User 0 ''alice'' (VmessAccount ''key-b'' 1 0)) None,
                   CLog AtDebug (AddedUser alice2),
                   CAddUser (User 0 ''carol'' (VmessAccount ''key-d'' 1 0)) (Some ''add failed'')]\<rparr>)"
  by (simp add: demo_defs run_defs cycle_defs showNat.simps)

lemma demo_do_errors:
  "do (demoEnv None None (Some ''write failed'') [(''alice'', Inr 700, Inr 1500)]
         (Inr [carol]) [''alice''] [])
      (demoPanel False [alice, bob]) =
   Returned None
     ((demoPanel False [bob])
        \<lparr>RetryTimes := 0,
         trace := [CPing None, CCreateNodeInfo (NodeInfo 1 60 ''0.00 0.00 0.00'') None,
                   CGetUserDownlink ''alice'' (Inr 700), CGetUserUplink ''alice'' (Inr 1500),
                   CGetUserDownlink ''bob'' (Inr 0), CGetUserUplink ''bob'' (Inr 0),
                   CCreateUserTrafficLog
                     \<lparr>UserID = 1, Uplink = 1500, Downlink = 700, LogNodeID = 1, Rate = 2,
                      Traffic = ''4400B''\<rparr> (Some ''write failed''),
                   CCreateNodeOnlineLog (NodeOnlineLog 1 1) (Some ''write failed''),
                   CUpdates [1] ''CASE id  WHEN 1 THEN u + 3000 END''
                     ''CASE id  WHEN 1 THEN d + 1400 END'' 1700000000 (Some ''write failed''),
                   CGetAllUsers 1 (Inr [carol]),
                   CDelUser ''alice'' (Some ''remove failed''),
                   CLog AtDebug (CycleSummary 0 0 ''700B'' ''1500B'' 1)]\<rparr>)"
  by (simp add: demo_defs run_defs cycle_defs showNat.simps)

lemma demo_do_bulk:
  "do (demoEnv None None None [(''alice'', Inr 700, Inr 1500), (''bob'', Inr 50, Inr 100)]
         (Inr [alice, bob, dave]) [] [])
      (demoPanel False [alice, bob, dave]) =
   Returned None
     ((demoPanel False [alice, bob, dave])
        \<lparr>RetryTimes := 0,
         trace := [CPing None, CCreateNodeInfo (NodeInfo 1 60 ''0.00 0.00 0.00'') None,
                   CGetUserDownlink ''alice'' (Inr 700), CGetUserUplink ''alice'' (Inr 1500),
                   CGetUserDownlink ''bob'' (Inr 50), CGetUserUplink ''bob'' (Inr 100),
                   CGetUserDownlink ''dave'' (Inr 0), CGetUserUplink ''dave'' (Inr 0),
                   CCreateUserTrafficLog
                     \<lparr>UserID = 1, Uplink = 1500, Downlink = 700, LogNodeID = 1, Rate = 2,
                      Traffic = ''4400B''\<rparr> None,
                   CCreateUserTrafficLog
                     \<lparr>UserID = 2, Uplink = 100, Downlink = 50, LogNodeID = 1, Rate = 2,
                      Traffic = ''300B''\<rparr> None,
                   CCreateNodeOnlineLog (NodeOnlineLog 1 1) None,
                   CUpdates [1, 2] ''CASE id  WHEN 1 THEN u + 3000 WHEN 2 THEN u + 200 END''
                     ''CASE id  WHEN 1 THEN d + 1400 WHEN 2 THEN d + 100 END'' 1700000000 None,
                   CGetAllUsers 1 (Inr [alice, bob, dave]),
                   CLog AtDebug (CycleSummary 0 0 ''750B'' ''1600B'' 1)]\<rparr>)"
  by (simp add: demo_defs run_defs cycle_defs showNat.simps)

lemma demo_do_wrap:
  "do (demoEnv None None None
         [(''alice'', Inr 9223372036854775808, Inr 9223372036854775808)] (Inr [alice]) [] [])
      (demoPanel False [alice]) =
   Returned None
     ((demoPanel False [alice])
        \<lparr>RetryTimes := 0,
         trace := [CPing None, CCreateNodeInfo (NodeInfo 1 60 ''0.00 0.00 0.00'') None,
                   CGetUserDownlink ''alice'' (Inr 9223372036854775808),
                   CGetUserUplink ''alice'' (Inr 9223372036854775808),
                   CGetAllUsers 1 (Inr [alice]),
                   CLog AtDebug (CycleSummary 0 0 ''0B'' ''0B'' 0)]\<rparr>)"
  by (simp add: demo_defs run_defs cycle_defs showNat.simps)

lemma demo_do_hb_fail:
  "do (demoEnv None (Some ''insert failed'') None [(''alice'', Inr 700, Inr 1500)] (Inr [carol]) [] [])
      (demoPanel False [alice]) =
   Returned (Some ''insert failed'')
     ((demoPanel False [alice])
        \<lparr>RetryTimes := 0,
         trace := [CPing None,
                   CCreateNodeInfo (NodeInfo 1 60 ''0.00 0.00 0.00'') (Some ''insert failed''),
                   CLog AtDebug (CycleSummary 0 0 ''0B'' ''0B'' 0)]\<rparr>)"
  by (simp add: demo_defs run_defs cycle_defs showNat.simps)

section \<open>The claims about the reconciler\<close>

text \<open>
  Claim C1, amended. Let the fetch return a list \<open>auth\<close> that is not empty, and let every add
  and remove call of the run succeed. Then \<^verbatim>\<open>syncUser\<close> returns; the handler calls it issued
  are one \<^verbatim>\<open>DelUser\<close> (by label) for each provisioned entry with no fully equal entry in
  \<open>auth\<close>, followed by one \<^verbatim>\<open>AddUser\<close> for each entry of \<open>auth\<close> with no fully equal
  provisioned entry, in list order and nothing else; the counters are the lengths of the two
  lists; afterwards the provisioned list is the kept entries followed by the added ones, so
  it holds exactly the authoritative users. A user with one field changed is a provisioned
  entry without an equal in \<open>auth\<close> and an entry of \<open>auth\<close> without an equal provisioned
  one: one removal and one addition; the handler interface has no update call.
\<close>

theorem syncUser_reconciles:
  assumes fetch: "fst (GetAllUsers env (NodeID p) (world p)) = Inr auth"
    and ne: "auth \<noteq> []"
    and ok: "\<forall>c\<in>set (issued p (final (syncUser env p))). \<not> adminFailed c"
  shows "\<exists>p'. syncUser env p =
            Returned (length (filter (\<lambda>u. u \<notin> set (userModels p)) auth),
                      length (filter (\<lambda>u. u \<notin> set auth) (userModels p)), None) p'
          \<and> userModels p' = filter (\<lambda>u. u \<in> set auth) (userModels p)
                              @ filter (\<lambda>u. u \<notin> set (userModels p)) auth
          \<and> filter isAdmin (issued p p') =
              map (\<lambda>u. CDelUser (Email u) None) (filter (\<lambda>u. u \<notin> set auth) (userModels p))
              @ map (\<lambda>u. CAddUser (convertUser p u) None)
                  (filter (\<lambda>u. u \<notin> set (userModels p)) auth)
          \<and> set (userModels p') = set auth"
  using fetch ne ok by (rule syncUser_all_ok)

text \<open>
  The run on the provisioned list alice, bob against the authoritative list alice2, carol
  (alice with a new credential): two removals, then two additions.
\<close>

theorem syncUser_reconciles_witness:
  "fst (GetAllUsers (demoEnv None None None [] (Inr [alice2, carol]) [] [])
         (NodeID (demoPanel False [alice, bob])) (world (demoPanel False [alice, bob])))
     = Inr [alice2, carol]
   \<and> [alice2, carol] \<noteq> []
   \<and> (\<exists>p'. syncUser (demoEnv None None None [] (Inr [alice2, carol]) [] [])
               (demoPanel False [alice, bob]) = Returned (2, 2, None) p'
          \<and> userModels p' = [alice2, carol]
          \<and> filter isAdmin (issued (demoPanel False [alice, bob]) p') =
               [CDelUser ''alice'' None, CDelUser ''bob'' None,
                CAddUser (User 0 ''alice'' (VmessAccount ''key-b'' 1 0)) None,
                CAddUser (User 0 ''carol'' (VmessAccount ''key-d'' 1 0)) None])"
proof -
  let ?E = "demoEnv None None None [] (Inr [alice2, carol]) [] []"
  let ?P = "demoPanel False [alice, bob]"
  have h1: "fst (GetAllUsers ?E (NodeID ?P) (world ?P)) = Inr [alice2, carol]"
    by (simp add: demoEnv_def)
  have h2: "[alice2, carol] \<noteq> []" by simp
  have h3: "\<forall>c\<in>set (issued ?P (final (syncUser ?E ?P))). \<not> adminFailed c"
    unfolding demo_sync_change by (simp add: issued_def demoPanel_def)
  from syncUser_reconciles[OF h1 h2 h3] obtain p' where
    a: "syncUser ?E ?P =
            Returned (length (filter (\<lambda>u. u \<notin> set (userModels ?P)) [alice2, carol]),
                      length (filter (\<lambda>u. u \<notin> set [alice2, carol]) (userModels ?P)), None) p'"
    and b: "userModels p' = filter (\<lambda>u. u \<in> set [alice2, carol]) (userModels ?P)
                              @ filter (\<lambda>u. u \<notin> set (userModels ?P)) [alice2, carol]"
    and c: "filter isAdmin (issued ?P p') =
              map (\<lambda>u. CDelUser (Email u) None) (filter (\<lambda>u. u \<notin> set [alice2, carol]) (userModels ?P))
              @ map (\<lambda>u. CAddUser (convertUser ?P u) None)
                  (filter (\<lambda>u. u \<notin> set (userModels ?P)) [alice2, carol])"
    by blast
  have a': "syncUser ?E ?P = Returned (2, 2, None) p'"
    using a by (simp add: demo_defs)
  have b': "userModels p' = [alice2, carol]"
    using b by (simp add: demo_defs)
  have c': "filter isAdmin (issued ?P p') =
               [CDelUser ''alice'' None, CDelUser ''bob'' None,
                CAddUser (User 0 ''alice'' (VmessAccount ''key-b'' 1 0)) None,
                CAddUser (User 0 ''carol'' (VmessAccount ''key-d'' 1 0)) None]"
    using c by (simp add: demo_defs convertUser_def)
  show ?thesis using h1 h2 a' b' c' by blast
qed

text \<open>
  Without the condition on the fetched list the claim fails: with an empty authoritative
  list, alice is provisioned and has no equal authoritative entry, no call fails, and yet
  no remove call is issued and alice stays provisioned.
\<close>

theorem syncUser_reconciles_counterexample:
  "alice \<in> set (userModels (demoPanel False [alice, bob]))
   \<and> fst (GetAllUsers (demoEnv None None None [] (Inr []) [] [])
         (NodeID (demoPanel False [alice, bob])) (world (demoPanel False [alice, bob]))) = Inr []
   \<and> alice \<notin> set ([] :: UserModel list)
   \<and> filter adminFailed (issued (demoPanel False [alice, bob])
        (final (syncUser (demoEnv None None None [] (Inr []) [] []) (demoPanel False [alice, bob])))) = []
   \<and> filter isDel (issued (demoPanel False [alice, bob])
        (final (syncUser (demoEnv None None None [] (Inr []) [] []) (demoPanel False [alice, bob])))) = []
   \<and> alice \<in> set (userModels
        (final (syncUser (demoEnv None None None [] (Inr []) [] []) (demoPanel False [alice, bob]))))"
  unfolding demo_sync_empty by (simp add: issued_def demoPanel_def demoEnv_def)

text \<open>
  Claim C4. With a fetched list \<open>auth\<close> that is not empty, the calls of \<^verbatim>\<open>syncUser\<close> are the
  fetch, then the removals, then the additions. Either no removal fails: every scheduled
  removal is called by label (\<open>delOk\<close>), no \<^verbatim>\<open>DelUser\<close> follows in the add phase, no
  scheduled removal is left in the provisioned list, and a returning run reports the number
  of removals as its deleted counter. Or the removal number \<open>k\<close> fails: the run returns at
  once with that error and the counters \<open>(0, k)\<close>, the failed call is the last call, so no
  later removal and no addition is attempted, and a next run against the same list
  schedules the removals after the failed one and the same additions again.
\<close>

theorem syncUser_removals_first:
  assumes fetch: "fst (GetAllUsers env (NodeID p) (world p)) = Inr auth"
    and ne: "auth \<noteq> []"
  shows
   "(\<exists>as. issued p (final (syncUser env p)) =
            CGetAllUsers (NodeID p) (Inr auth) # delOk (delUserModels auth (userModels p)) @ as
          \<and> filter isDel as = []
          \<and> delUserModels auth (userModels (final (syncUser env p))) = []
          \<and> (\<forall>a d e p'. syncUser env p = Returned (a, d, e) p' \<longrightarrow>
                 d = length (delUserModels auth (userModels p))))
    \<or> (\<exists>k e p'. k < length (delUserModels auth (userModels p))
          \<and> syncUser env p = Returned (0, k, Some e) p'
          \<and> issued p p' =
              CGetAllUsers (NodeID p) (Inr auth) # delOk (take k (delUserModels auth (userModels p)))
              @ [CDelUser (Email (delUserModels auth (userModels p) ! k)) (Some e)]
          \<and> delUserModels auth (userModels p') = drop (Suc k) (delUserModels auth (userModels p))
          \<and> addUserModels auth (userModels p') = addUserModels auth (userModels p))"
   (is "?A \<or> ?F")
proof -
  let ?dels = "filter (\<lambda>u. u \<notin> set auth) (userModels p)"
  let ?adds = "filter (\<lambda>u. u \<notin> set (userModels p)) auth"
  let ?keep = "filter (\<lambda>u. u \<in> set auth) (userModels p)"
  let ?g = "CGetAllUsers (NodeID p) (Inr auth) :: 'b effect"
  obtain w1 where g: "GetAllUsers env (NodeID p) (world p) = (Inr auth, w1)"
    using fetch_pair[OF fetch] by blast
  have A: ?A
    if T: "issued p (final (syncUser env p)) = ?g # delOk ?dels @ as"
      and as: "filter isDel as = []"
      and um: "userModels (final (syncUser env p)) = ?keep @ xs" "set xs \<subseteq> set auth"
      and cnt: "\<forall>a d e p'. syncUser env p = Returned (a, d, e) p' \<longrightarrow> d = length ?dels"
    for as xs
  proof -
    have "filter (\<lambda>u. u \<notin> set auth) (?keep @ xs) = []"
      using um(2) by (auto simp: filter_empty_conv)
    then show ?thesis
      unfolding delUserModels_eq using T as um(1) cnt
      by (intro exI[of _ as]) simp
  qed
  from syncUser_cases[OF g ne] consider
    (B) k e zs w where "k < length ?dels" "syncUser env p = Returned (0, k, Some e)
          (p\<lparr>userModels := zs, world := w,
             trace := trace p @ ?g # delOk (take k ?dels) @ [CDelUser (Email (?dels ! k)) (Some e)]\<rparr>)"
       "filter (\<lambda>u. u \<in> set auth) zs = ?keep"
       "filter (\<lambda>u. u \<notin> set auth) zs = drop (Suc k) ?dels"
  | (T) urs w where "map fst urs = ?adds"
      "syncUser env p =
            Returned (length (added urs), length ?dels, if urs = [] then None else snd (last urs))
              (p\<lparr>userModels := ?keep @ added urs, world := w,
                 trace := trace p @ ?g # delOk ?dels @ concat (map (addStep p) urs)\<rparr>)"
  | (S) w where "syncUser env p = Returned (length ?adds, length ?dels, None)
              (p\<lparr>userModels := ?keep @ ?adds, world := w,
                 trace := trace p @ ?g # delOk ?dels @ addOk p ?adds\<rparr>)"
  | (H) k e w where "syncUser env p = Halted
              (p\<lparr>userModels := ?keep @ take k ?adds, world := w,
                 trace := trace p @ ?g # delOk ?dels @ addOk p (take k ?adds)
                   @ [CAddUser (convertUser p (?adds ! k)) (Some e)]\<rparr>)"
    by blast
  then show ?thesis
  proof cases
    case B
    have "addUserModels auth zs = addUserModels auth (userModels p)"
      unfolding addUserModels_eq by (rule filter_kept_set[OF B(3)])
    then have ?F
      unfolding delUserModels_eq using B
      by (intro exI[of _ k] exI[of _ e]
            exI[of _ "p\<lparr>userModels := zs, world := w,
             trace := trace p @ ?g # delOk (take k ?dels) @ [CDelUser (Email (?dels ! k)) (Some e)]\<rparr>"])
         simp
    then show ?thesis by (rule disjI2)
  next
    case T
    have "set (added urs) \<subseteq> set auth"
      using added_subset[of urs] T(1) by auto
    then have ?A
      by (intro A[of "concat (map (addStep p) urs)" "added urs"])
         (simp_all add: T(2) isDel_addStep)
    then show ?thesis by (rule disjI1)
  next
    case S
    have ?A
      by (intro A[of "addOk p ?adds" ?adds]) (auto simp: S isDel_addOk)
    then show ?thesis by (rule disjI1)
  next
    case H
    have "set (take k ?adds) \<subseteq> set auth"
      using set_take_subset[of k ?adds] by auto
    then have ?A
      by (intro A[of "addOk p (take k ?adds) @ [CAddUser (convertUser p (?adds ! k)) (Some e)]"
                   "take k ?adds"])
         (simp_all add: H isDel_addOk)
    then show ?thesis by (rule disjI1)
  qed
qed

text \<open>
  The provisioned list alice, bob, dave against the authoritative list carol, with the
  removal of bob failing: alice is removed, bob fails, dave and carol are left for later.
\<close>

theorem syncUser_removals_first_witness:
  "fst (GetAllUsers (demoEnv None None None [] (Inr [carol]) [''bob''] [])
         (NodeID (demoPanel False [alice, bob, dave])) (world (demoPanel False [alice, bob, dave])))
     = Inr [carol]
   \<and> [carol] \<noteq> []
   \<and> delUserModels [carol] (userModels (demoPanel False [alice, bob, dave])) = [alice, bob, dave]
   \<and> (\<exists>k e p'. k < length (delUserModels [carol] (userModels (demoPanel False [alice, bob, dave])))
          \<and> syncUser (demoEnv None None None [] (Inr [carol]) [''bob''] [])
               (demoPanel False [alice, bob, dave]) = Returned (0, k, Some e) p'
          \<and> issued (demoPanel False [alice, bob, dave]) p' =
              CGetAllUsers (NodeID (demoPanel False [alice, bob, dave])) (Inr [carol])
              # delOk (take k (delUserModels [carol] (userModels (demoPanel False [alice, bob, dave]))))
              @ [CDelUser (Email (delUserModels [carol]
                    (userModels (demoPanel False [alice, bob, dave])) ! k)) (Some e)]
          \<and> delUserModels [carol] (userModels p') =
              drop (Suc k) (delUserModels [carol] (userModels (demoPanel False [alice, bob, dave])))
          \<and> addUserModels [carol] (userModels p') =
              addUserModels [carol] (userModels (demoPanel False [alice, bob, dave])))"
proof -
  let ?E = "demoEnv None None None [] (Inr [carol]) [''bob''] []"
  let ?P = "demoPanel False [alice, bob, dave]"
  have h1: "fst (GetAllUsers ?E (NodeID ?P) (world ?P)) = Inr [carol]"
    by (simp add: demoEnv_def)
  have h2: "[carol] \<noteq> []" by simp
  have d: "delUserModels [carol] (userModels ?P) = [alice, bob, dave]"
    by (simp add: delUserModels_eq demo_defs)
  have notA: "\<not> (\<exists>as. issued ?P (final (syncUser ?E ?P)) =
            CGetAllUsers (NodeID ?P) (Inr [carol]) # delOk (delUserModels [carol] (userModels ?P)) @ as
          \<and> filter isDel as = []
          \<and> delUserModels [carol] (userModels (final (syncUser ?E ?P))) = []
          \<and> (\<forall>a d e p'. syncUser ?E ?P = Returned (a, d, e) p' \<longrightarrow>
                 d = length (delUserModels [carol] (userModels ?P))))"
    unfolding demo_sync_del_fails d by (simp add: issued_def demoPanel_def delOk_def)
  from syncUser_removals_first[OF h1 h2] notA h1 h2 d show ?thesis by blast
qed

text \<open>
  Claim C7. If a run of \<^verbatim>\<open>syncUser\<close> on the fetched list \<open>auth\<close> returns and none of its add
  and remove calls failed, a second run that fetches the same list issues the fetch and no
  other call, returns \<open>(0, 0, nil)\<close> and leaves the provisioned list as it is.
\<close>

theorem syncUser_idempotent:
  assumes f1: "fst (GetAllUsers env (NodeID p) (world p)) = Inr auth"
    and r1: "syncUser env p = Returned r p1"
    and ok: "\<forall>c\<in>set (issued p p1). \<not> adminFailed c"
    and f2: "fst (GetAllUsers env (NodeID p1) (world p1)) = Inr auth"
  shows "\<exists>p2. syncUser env p1 = Returned (0, 0, None) p2
           \<and> userModels p2 = userModels p1
           \<and> issued p1 p2 = [CGetAllUsers (NodeID p1) (Inr auth)]"
proof -
  obtain w2 where g2: "GetAllUsers env (NodeID p1) (world p1) = (Inr auth, w2)"
    using fetch_pair[OF f2] by blast
  let ?p2 = "p1\<lparr>world := w2, trace := trace p1 @ [CGetAllUsers (NodeID p1) (Inr auth)]\<rparr>"
  have su: "syncUser env p1 = Returned (0, 0, None) ?p2"
  proof (cases "auth = []")
    case True
    then show ?thesis using g2 by (simp add: syncUser_def issue_def)
  next
    case False
    have "\<forall>c\<in>set (issued p (final (syncUser env p))). \<not> adminFailed c"
      using ok r1 by simp
    from syncUser_all_ok[OF f1 False this] r1 have "set (userModels p1) = set auth"
      by auto
    from syncUser_nothing_to_do[OF g2 this] show ?thesis .
  qed
  show ?thesis
    unfolding su by (intro exI[of _ ?p2]) simp
qed

theorem syncUser_idempotent_witness:
  "fst (GetAllUsers (demoEnv None None None [] (Inr [alice2, carol]) [] [])
         (NodeID (demoPanel False [alice, bob])) (world (demoPanel False [alice, bob])))
     = Inr [alice2, carol]
   \<and> (\<exists>r p1. syncUser (demoEnv None None None [] (Inr [alice2, carol]) [] [])
                 (demoPanel False [alice, bob]) = Returned r p1
         \<and> filter adminFailed (issued (demoPanel False [alice, bob]) p1) = []
         \<and> filter isAdmin (issued (demoPanel False [alice, bob]) p1) \<noteq> []
         \<and> fst (GetAllUsers (demoEnv None None None [] (Inr [alice2, carol]) [] [])
                  (NodeID p1) (world p1)) = Inr [alice2, carol]
         \<and> (\<exists>p2. syncUser (demoEnv None None None [] (Inr [alice2, carol]) [] []) p1 =
                    Returned (0, 0, None) p2
               \<and> userModels p2 = userModels p1
               \<and> issued p1 p2 = [CGetAllUsers (NodeID p1) (Inr [alice2, carol])]))"
proof -
  let ?E = "demoEnv None None None [] (Inr [alice2, carol]) [] []"
  let ?P = "demoPanel False [alice, bob]"
  let ?P1 = "(demoPanel False [alice2, carol])
          \<lparr>trace := [CGetAllUsers 1 (Inr [alice2, carol]),
                     CDelUser ''alice'' None, CLog AtDebug (DeletedUser alice),
                     CDelUser ''bob'' None, CLog AtDebug (DeletedUser bob),
                     CAddUser (User 0 ''alice'' (VmessAccount ''key-b'' 1 0)) None,
                     CLog AtDebug (AddedUser alice2),
                     CAddUser (User 0 ''carol'' (VmessAccount ''key-d'' 1 0)) None,
                     CLog AtDebug (AddedUser carol)]\<rparr>"
  have f1: "fst (GetAllUsers ?E (NodeID ?P) (world ?P)) = Inr [alice2, carol]"
    by (simp add: demoEnv_def)
  have r1: "syncUser ?E ?P = Returned (2, 2, None) ?P1"
    by (rule demo_sync_change)
  have ok: "\<forall>c\<in>set (issued ?P ?P1). \<not> adminFailed c"
    by (simp add: issued_def demoPanel_def)
  have ok': "filter adminFailed (issued ?P ?P1) = []"
    by (simp add: issued_def demoPanel_def)
  have some: "filter isAdmin (issued ?P ?P1) \<noteq> []"
    by (simp add: issued_def demoPanel_def)
  have f2: "fst (GetAllUsers ?E (NodeID ?P1) (world ?P1)) = Inr [alice2, carol]"
    by (simp add: demoEnv_def)
  from syncUser_idempotent[OF f1 r1 ok f2] f1 r1 ok' some f2 show ?thesis by blast
qed

text \<open>
  Claim C8. If the fetched authoritative list is empty, \<^verbatim>\<open>syncUser\<close> returns
  \<open>(0, 0, nil)\<close>; the fetch is the only call it issues and the provisioned list is unchanged.
\<close>

theorem syncUser_empty_list:
  assumes "fst (GetAllUsers env (NodeID p) (world p)) = Inr []"
  shows "syncUser env p =
     Returned (0, 0, None)
       (p\<lparr>world := snd (GetAllUsers env (NodeID p) (world p)),
          trace := trace p @ [CGetAllUsers (NodeID p) (Inr [])]\<rparr>)"
  using assms
  by (cases "GetAllUsers env (NodeID p) (world p)") (simp add: syncUser_def issue_def)

theorem syncUser_empty_list_witness:
  "fst (GetAllUsers (demoEnv None None None [] (Inr []) [] [])
         (NodeID (demoPanel False [alice, bob])) (world (demoPanel False [alice, bob]))) = Inr []
   \<and> syncUser (demoEnv None None None [] (Inr []) [] []) (demoPanel False [alice, bob]) =
       Returned (0, 0, None) ((demoPanel False [alice, bob])\<lparr>trace := [CGetAllUsers 1 (Inr [])]\<rparr>)"
proof -
  let ?E = "demoEnv None None None [] (Inr []) [] []"
  let ?P = "demoPanel False [alice, bob]"
  have h: "fst (GetAllUsers ?E (NodeID ?P) (world ?P)) = Inr []"
    by (simp add: demoEnv_def)
  have "syncUser ?E ?P = Returned (0, 0, None)
       (?P\<lparr>world := snd (GetAllUsers ?E (NodeID ?P) (world ?P)),
          trace := trace ?P @ [CGetAllUsers (NodeID ?P) (Inr [])]\<rparr>)"
    by (rule syncUser_empty_list[OF h])
  then have "syncUser ?E ?P = Returned (0, 0, None) (?P\<lparr>trace := [CGetAllUsers 1 (Inr [])]\<rparr>)"
    by (simp add: demoEnv_def demoPanel_def)
  with h show ?thesis by blast
qed

text \<open>
  Claim C10. Let an add call fail in a run of \<^verbatim>\<open>syncUser\<close> on the fetched list \<open>auth\<close>. On
  a node with \<^verbatim>\<open>IgnoreEmptyVmessID\<close> the run returns: every scheduled addition was called
  (\<open>urs\<close> pairs each with its outcome), a failed one is followed by a warning (\<open>addStep\<close>),
  only the users whose call succeeded are appended and counted (\<open>added\<close>). On another node
  the first failed add call is the last thing the run does: \<^verbatim>\<open>fatal\<close> halts the process,
  with the additions before it applied.
\<close>

theorem syncUser_add_failure:
  assumes fetch: "fst (GetAllUsers env (NodeID p) (world p)) = Inr auth"
    and fail: "\<exists>c\<in>set (issued p (final (syncUser env p))). addFailed c"
  shows
   "if IgnoreEmptyVmessID p then
      (\<exists>urs p'. map fst urs = addUserModels auth (userModels p)
         \<and> syncUser env p =
             Returned (length (added urs), length (delUserModels auth (userModels p)),
                       snd (last urs)) p'
         \<and> userModels p' = filter (\<lambda>u. u \<in> set auth) (userModels p) @ added urs
         \<and> issued p p' =
             CGetAllUsers (NodeID p) (Inr auth) # delOk (delUserModels auth (userModels p))
             @ concat (map (addStep p) urs))
    else
      (\<exists>k e p'. k < length (addUserModels auth (userModels p))
         \<and> syncUser env p = Halted p'
         \<and> userModels p' = filter (\<lambda>u. u \<in> set auth) (userModels p)
                               @ take k (addUserModels auth (userModels p))
         \<and> issued p p' =
             CGetAllUsers (NodeID p) (Inr auth) # delOk (delUserModels auth (userModels p))
             @ addOk p (take k (addUserModels auth (userModels p)))
             @ [CAddUser (convertUser p (addUserModels auth (userModels p) ! k)) (Some e)])"
proof -
  let ?dels = "filter (\<lambda>u. u \<notin> set auth) (userModels p)"
  let ?adds = "filter (\<lambda>u. u \<notin> set (userModels p)) auth"
  let ?keep = "filter (\<lambda>u. u \<in> set auth) (userModels p)"
  let ?g = "CGetAllUsers (NodeID p) (Inr auth) :: 'b effect"
  obtain w1 where g: "GetAllUsers env (NodeID p) (world p) = (Inr auth, w1)"
    using fetch_pair[OF fetch] by blast
  have ne: "auth \<noteq> []"
  proof
    assume "auth = []"
    then have "syncUser env p = Returned (0, 0, None)
        (p\<lparr>world := w1, trace := trace p @ [CGetAllUsers (NodeID p) (Inr auth)]\<rparr>)"
      using g by (simp add: syncUser_def issue_def)
    then show False using fail by simp
  qed
  from syncUser_cases[OF g ne] consider
    (B) k e zs w where "syncUser env p = Returned (0, k, Some e)
          (p\<lparr>userModels := zs, world := w,
             trace := trace p @ ?g # delOk (take k ?dels) @ [CDelUser (Email (?dels ! k)) (Some e)]\<rparr>)"
  | (T) urs w where "IgnoreEmptyVmessID p" "map fst urs = ?adds"
      "syncUser env p =
            Returned (length (added urs), length ?dels, if urs = [] then None else snd (last urs))
              (p\<lparr>userModels := ?keep @ added urs, world := w,
                 trace := trace p @ ?g # delOk ?dels @ concat (map (addStep p) urs)\<rparr>)"
  | (S) w where "syncUser env p = Returned (length ?adds, length ?dels, None)
              (p\<lparr>userModels := ?keep @ ?adds, world := w,
                 trace := trace p @ ?g # delOk ?dels @ addOk p ?adds\<rparr>)"
  | (H) k e w where "\<not> IgnoreEmptyVmessID p" "k < length ?adds" "syncUser env p = Halted
              (p\<lparr>userModels := ?keep @ take k ?adds, world := w,
                 trace := trace p @ ?g # delOk ?dels @ addOk p (take k ?adds)
                   @ [CAddUser (convertUser p (?adds ! k)) (Some e)]\<rparr>)"
    by blast
  then show ?thesis
  proof cases
    case B
    then show ?thesis using fail by (auto dest: addFailed_delOk in_set_takeD)
  next
    case T
    have "urs \<noteq> []" using fail unfolding T(3) by (auto dest: addFailed_delOk)
    then show ?thesis
      unfolding addUserModels_eq delUserModels_eq using T
      by (simp add: exI[of _ urs])
  next
    case S
    then show ?thesis using fail by (auto dest: addFailed_delOk addFailed_addOk)
  next
    case H
    show ?thesis
      unfolding addUserModels_eq delUserModels_eq using H
      by (simp add: exI[of _ k] exI[of _ e])
  qed
qed

text \<open>
  The provisioned list alice against alice2, carol, dave, with the add of carol failing:
  first on a tolerant node, where dave is still added, then on a node that is not, where
  the run halts at carol.
\<close>

theorem syncUser_add_failure_witness:
  "(fst (GetAllUsers (demoEnv None None None [] (Inr [alice2, carol, dave]) [] [''carol''])
         (NodeID (demoPanel True [alice])) (world (demoPanel True [alice])))
     = Inr [alice2, carol, dave]
   \<and> CAddUser (User 0 ''carol'' (VmessAccount ''key-d'' 1 0)) (Some ''add failed'')
       \<in> set (issued (demoPanel True [alice])
           (final (syncUser (demoEnv None None None [] (Inr [alice2, carol, dave]) [] [''carol''])
              (demoPanel True [alice]))))
   \<and> IgnoreEmptyVmessID (demoPanel True [alice])
   \<and> (\<exists>urs p'. map fst urs = [alice2, carol, dave]
         \<and> syncUser (demoEnv None None None [] (Inr [alice2, carol, dave]) [] [''carol''])
              (demoPanel True [alice]) =
             Returned (length (added urs), 1, snd (last urs)) p'
         \<and> userModels p' = added urs
         \<and> issued (demoPanel True [alice]) p' =
             CGetAllUsers 1 (Inr [alice2, carol, dave]) # delOk [alice]
             @ concat (map (addStep (demoPanel True [alice])) urs)))
   \<and> (fst (GetAllUsers (demoEnv None None None [] (Inr [alice2, carol, dave]) [] [''carol''])
         (NodeID (demoPanel False [alice])) (world (demoPanel False [alice])))
     = Inr [alice2, carol, dave]
   \<and> CAddUser (User 0 ''carol'' (VmessAccount ''key-d'' 1 0)) (Some ''add failed'')
       \<in> set (issued (demoPanel False [alice])
           (final (syncUser (demoEnv None None None [] (Inr [alice2, carol, dave]) [] [''carol''])
              (demoPanel False [alice]))))
   \<and> \<not> IgnoreEmptyVmessID (demoPanel False [alice])
   \<and> (\<exists>k e p'. k < length [alice2, carol, dave]
         \<and> syncUser (demoEnv None None None [] (Inr [alice2, carol, dave]) [] [''carol''])
              (demoPanel False [alice]) = Halted p'
         \<and> userModels p' = take k [alice2, carol, dave]
         \<and> issued (demoPanel False [alice]) p' =
             CGetAllUsers 1 (Inr [alice2, carol, dave]) # delOk [alice]
             @ addOk (demoPanel False [alice]) (take k [alice2, carol, dave])
             @ [CAddUser (convertUser (demoPanel False [alice]) ([alice2, carol, dave] ! k)) (Some e)]))"
proof (rule conjI)
  show "fst (GetAllUsers (demoEnv None None None [] (Inr [alice2, carol, dave]) [] [''carol''])
         (NodeID (demoPanel True [alice])) (world (demoPanel True [alice])))
     = Inr [alice2, carol, dave]
   \<and> CAddUser (User 0 ''carol'' (VmessAccount ''key-d'' 1 0)) (Some ''add failed'')
       \<in> set (issued (demoPanel True [alice])
           (final (syncUser (demoEnv None None None [] (Inr [alice2, carol, dave]) [] [''carol''])
              (demoPanel True [alice]))))
   \<and> IgnoreEmptyVmessID (demoPanel True [alice])
   \<and> (\<exists>urs p'. map fst urs = [alice2, carol, dave]
         \<and> syncUser (demoEnv None None None [] (Inr [alice2, carol, dave]) [] [''carol''])
              (demoPanel True [alice]) =
             Returned (length (added urs), 1, snd (last urs)) p'
         \<and> userModels p' = added urs
         \<and> issued (demoPanel True [alice]) p' =
             CGetAllUsers 1 (Inr [alice2, carol, dave]) # delOk [alice]
             @ concat (map (addStep (demoPanel True [alice])) urs))"
  proof -
    let ?E = "demoEnv None None None [] (Inr [alice2, carol, dave]) [] [''carol'']"
    let ?P = "demoPanel True [alice]"
    have h1: "fst (GetAllUsers ?E (NodeID ?P) (world ?P)) = Inr [alice2, carol, dave]"
      by (simp add: demoEnv_def)
    have m: "CAddUser (User 0 ''carol'' (VmessAccount ''key-d'' 1 0)) (Some ''add failed'')
         \<in> set (issued ?P (final (syncUser ?E ?P)))"
      unfolding demo_sync_tolerant by (simp add: issued_def demoPanel_def)
    have "addFailed (CAddUser (User 0 ''carol'' (VmessAccount ''key-d'' 1 0)) (Some ''add failed'') :: nat effect)"
      by simp
    with m have h2: "\<exists>c\<in>set (issued ?P (final (syncUser ?E ?P))). addFailed c"
      by blast
    have ig: "IgnoreEmptyVmessID ?P" by (simp add: demoPanel_def)
    have a: "addUserModels [alice2, carol, dave] (userModels ?P) = [alice2, carol, dave]"
      and d: "delUserModels [alice2, carol, dave] (userModels ?P) = [alice]"
      and k: "filter (\<lambda>u. u \<in> set [alice2, carol, dave]) (userModels ?P) = []"
      and n: "NodeID ?P = 1"
      by (simp_all add: addUserModels_eq delUserModels_eq demo_defs)
    from syncUser_add_failure[OF h1 h2] ig
    have "\<exists>urs p'. map fst urs = addUserModels [alice2, carol, dave] (userModels ?P)
           \<and> syncUser ?E ?P =
               Returned (length (added urs), length (delUserModels [alice2, carol, dave] (userModels ?P)),
                         snd (last urs)) p'
           \<and> userModels p' = filter (\<lambda>u. u \<in> set [alice2, carol, dave]) (userModels ?P) @ added urs
           \<and> issued ?P p' =
               CGetAllUsers (NodeID ?P) (Inr [alice2, carol, dave])
               # delOk (delUserModels [alice2, carol, dave] (userModels ?P))
               @ concat (map (addStep ?P) urs)"
      by simp
    then have "\<exists>urs p'. map fst urs = [alice2, carol, dave]
           \<and> syncUser ?E ?P = Returned (length (added urs), 1, snd (last urs)) p'
           \<and> userModels p' = added urs
           \<and> issued ?P p' =
               CGetAllUsers 1 (Inr [alice2, carol, dave]) # delOk [alice]
               @ concat (map (addStep ?P) urs)"
      unfolding a d k n by simp
    with h1 m ig show ?thesis by blast
  qed
next
  show "fst (GetAllUsers (demoEnv None None None [] (Inr [alice2, carol, dave]) [] [''carol''])
         (NodeID (demoPanel False [alice])) (world (demoPanel False [alice])))
     = Inr [alice2, carol, dave]
   \<and> CAddUser (User 0 ''carol'' (VmessAccount ''key-d'' 1 0)) (Some ''add failed'')
       \<in> set (issued (demoPanel False [alice])
           (final (syncUser (demoEnv None None None [] (Inr [alice2, carol, dave]) [] [''carol''])
              (demoPanel False [alice]))))
   \<and> \<not> IgnoreEmptyVmessID (demoPanel False [alice])
   \<and> (\<exists>k e p'. k < length [alice2, carol, dave]
         \<and> syncUser (demoEnv None None None [] (Inr [alice2, carol, dave]) [] [''carol''])
              (demoPanel False [alice]) = Halted p'
         \<and> userModels p' = take k [alice2, carol, dave]
         \<and> issued (demoPanel False [alice]) p' =
             CGetAllUsers 1 (Inr [alice2, carol, dave]) # delOk [alice]
             @ addOk (demoPanel False [alice]) (take k [alice2, carol, dave])
             @ [CAddUser (convertUser (demoPanel False [alice]) ([alice2, carol, dave] ! k)) (Some e)])"
  proof -
    let ?E = "demoEnv None None None [] (Inr [alice2, carol, dave]) [] [''carol'']"
    let ?P = "demoPanel False [alice]"
    have h1: "fst (GetAllUsers ?E (NodeID ?P) (world ?P)) = Inr [alice2, carol, dave]"
      by (simp add: demoEnv_def)
    have m: "CAddUser (User 0 ''carol'' (VmessAccount ''key-d'' 1 0)) (Some ''add failed'')
         \<in> set (issued ?P (final (syncUser ?E ?P)))"
      unfolding demo_sync_strict by (simp add: issued_def demoPanel_def)
    have "addFailed (CAddUser (User 0 ''carol'' (VmessAccount ''key-d'' 1 0)) (Some ''add failed'') :: nat effect)"
      by simp
    with m have h2: "\<exists>c\<in>set (issued ?P (final (syncUser ?E ?P))). addFailed c"
      by blast
    have ig: "\<not> IgnoreEmptyVmessID ?P" by (simp add: demoPanel_def)
    have a: "addUserModels [alice2, carol, dave] (userModels ?P) = [alice2, carol, dave]"
      and d: "delUserModels [alice2, carol, dave] (userModels ?P) = [alice]"
      and k: "filter (\<lambda>u. u \<in> set [alice2, carol, dave]) (userModels ?P) = []"
      and n: "NodeID ?P = 1"
      by (simp_all add: addUserModels_eq delUserModels_eq demo_defs)
    from syncUser_add_failure[OF h1 h2] ig
    have "\<exists>k e p'. k < length (addUserModels [alice2, carol, dave] (userModels ?P))
           \<and> syncUser ?E ?P = Halted p'
           \<and> userModels p' = filter (\<lambda>u. u \<in> set [alice2, carol, dave]) (userModels ?P)
                                 @ take k (addUserModels [alice2, carol, dave] (userModels ?P))
           \<and> issued ?P p' =
               CGetAllUsers (NodeID ?P) (Inr [alice2, carol, dave])
               # delOk (delUserModels [alice2, carol, dave] (userModels ?P))
               @ addOk ?P (take k (addUserModels [alice2, carol, dave] (userModels ?P)))
               @ [CAddUser (convertUser ?P (addUserModels [alice2, carol, dave] (userModels ?P) ! k)) (Some e)]"
      by simp
    then have "\<exists>k e p'. k < length [alice2, carol, dave]
           \<and> syncUser ?E ?P = Halted p'
           \<and> userModels p' = take k [alice2, carol, dave]
           \<and> issued ?P p' =
               CGetAllUsers 1 (Inr [alice2, carol, dave]) # delOk [alice]
               @ addOk ?P (take k [alice2, carol, dave])
               @ [CAddUser (convertUser ?P ([alice2, carol, dave] ! k)) (Some e)]"
      unfolding a d k n by simp
    with h1 m ig show ?thesis by blast
  qed
qed

section \<open>The claims about the cycle\<close>

text \<open>
  Claim C2, amended. If the ping at the start of \<^verbatim>\<open>do\<close> fails, \<^verbatim>\<open>do\<close> returns nil in the
  state it started in but for three things: the world the ping left, the retry counter,
  incremented, and a trace that grew by the ping and one debug line. So no heartbeat, no
  traffic log, no online snapshot, no bulk update and no add or remove call is issued, and
  the provisioned list is unchanged. The counter is incremented as Go increments an integer
  of fixed width: it grows by exactly one, unless it holds the largest value of its type,
  from which it wraps around to the smallest. If the ping succeeds, the retry counter is
  zero when the cycle ends, however it ends.
\<close>

theorem do_ping:
  fixes p :: "('w, 'f, 'n::len) Panel"
  shows
  "case fst (Ping env (world p)) of
     Some e \<Rightarrow>
       do env p = Returned None
         (p\<lparr>world := snd (Ping env (world p)), RetryTimes := RetryTimes p + 1,
            trace := trace p @
              [CPing (Some e), CLog AtDebug (LostDbConnection (sint (RetryTimes p + 1)))]\<rparr>)
       \<and> (if sint (RetryTimes p) = 2 ^ (LENGTH('n) - 1) - 1
          then sint (RetryTimes (final (do env p))) = - (2 ^ (LENGTH('n) - 1))
          else sint (RetryTimes (final (do env p))) = sint (RetryTimes p) + 1)
   | None \<Rightarrow> RetryTimes (final (do env p)) = 0"
proof (cases "fst (Ping env (world p))")
  case None
  then show ?thesis using do_retry_reset[OF None] by simp
next
  case (Some e)
  have d: "do env p = Returned None
         (p\<lparr>world := snd (Ping env (world p)), RetryTimes := RetryTimes p + 1,
            trace := trace p @
              [CPing (Some e), CLog AtDebug (LostDbConnection (sint (RetryTimes p + 1)))]\<rparr>)"
    by (rule do_ping_failed[OF Some])
  have r: "RetryTimes (final (do env p)) = RetryTimes p + 1"
    unfolding d by simp
  have w: "(if sint (RetryTimes p) = 2 ^ (LENGTH('n) - 1) - 1
          then sint (RetryTimes (final (do env p))) = - (2 ^ (LENGTH('n) - 1))
          else sint (RetryTimes (final (do env p))) = sint (RetryTimes p) + 1)"
    unfolding r by (rule sint_succ)
  show ?thesis unfolding Some option.case by (rule conjI[OF d w])
qed

text \<open>
  A failed ping on a node whose counter is 3, which leaves it at 4, and a cycle whose ping
  succeeds and whose heartbeat insert fails, which ends with the counter at zero.
\<close>

theorem do_ping_witness:
  "do (demoEnv (Some ''db down'') None None [] (Inr [carol]) [] []) (demoPanel False [alice]) =
     Returned None
       ((demoPanel False [alice])
          \<lparr>RetryTimes := 4,
           trace := [CPing (Some ''db down''), CLog AtDebug (LostDbConnection 4)]\<rparr>)
   \<and> sint (RetryTimes (demoPanel False [alice])) = 3
   \<and> sint (RetryTimes (final (do (demoEnv (Some ''db down'') None None [] (Inr [carol]) [] [])
                                  (demoPanel False [alice])))) = 4
   \<and> fst (Ping (demoEnv None (Some ''insert failed'') None [] (Inr [carol]) [] [])
            (world (demoPanel False [alice]))) = None
   \<and> RetryTimes (final (do (demoEnv None (Some ''insert failed'') None [] (Inr [carol]) [] [])
                            (demoPanel False [alice]))) = 0"
  using do_ping[of "demoEnv (Some ''db down'') None None [] (Inr [carol]) [] []"
                   "demoPanel False [alice]"]
        do_ping[of "demoEnv None (Some ''insert failed'') None [] (Inr [carol]) [] []"
                   "demoPanel False [alice]"]
  by (simp add: demoEnv_def demoPanel_def)

text \<open>
  Without the exception the claim fails: a 64-bit counter that holds its largest value,
  \<open>2^63 - 1\<close>, is at \<open>- 2^63\<close> after a failed ping.
\<close>

theorem do_ping_counterexample:
  "fst (Ping (demoEnv (Some ''db down'') None None [] (Inr [carol]) [] [])
          (world ((demoPanel False [alice])\<lparr>RetryTimes := 9223372036854775807\<rparr>)))
     = Some ''db down''
   \<and> sint (RetryTimes ((demoPanel False [alice])\<lparr>RetryTimes := 9223372036854775807\<rparr>))
       = 9223372036854775807
   \<and> sint (RetryTimes (final (do (demoEnv (Some ''db down'') None None [] (Inr [carol]) [] [])
            ((demoPanel False [alice])\<lparr>RetryTimes := 9223372036854775807\<rparr>))))
       = - 9223372036854775808
   \<and> sint (RetryTimes (final (do (demoEnv (Some ''db down'') None None [] (Inr [carol]) [] [])
            ((demoPanel False [alice])\<lparr>RetryTimes := 9223372036854775807\<rparr>))))
       \<noteq> sint (RetryTimes ((demoPanel False [alice])\<lparr>RetryTimes := 9223372036854775807\<rparr>)) + 1"
  by (simp add: do_def issue_def WriteToLog_def demoEnv_def demoPanel_def)

text \<open>
  Claim C3. If a stats read of the cycle fails, \<^verbatim>\<open>do\<close> returns the error of a failed read;
  the calls of the cycle are the ping, the heartbeat insert, stats reads and the deferred
  debug line, and nothing else: no traffic-log row, no bulk update, no online snapshot, no
  fetch of the authoritative list and no add or remove call; the provisioned list is
  unchanged.
\<close>

theorem do_stats_failure:
  assumes fail: "\<exists>c\<in>set (issued p (final (do env p))). statsError c \<noteq> None"
  shows "\<exists>e info st m.
       result (do env p) = Some (Some e)
     \<and> (\<exists>c\<in>set st. statsError c = Some e)
     \<and> issued p (final (do env p)) = CPing None # CCreateNodeInfo info None # st @ [CLog AtDebug m]
     \<and> list_all isStats st
     \<and> filter isRow (issued p (final (do env p))) = []
     \<and> filter isUpdates (issued p (final (do env p))) = []
     \<and> filter isOnlineLog (issued p (final (do env p))) = []
     \<and> filter isFetch (issued p (final (do env p))) = []
     \<and> filter isAdmin (issued p (final (do env p))) = []
     \<and> userModels (final (do env p)) = userModels p"
proof -
  from do_cases[of env p] consider
    (P) e where "issued p (final (do env p)) =
             [CPing (Some e), CLog AtDebug (LostDbConnection (sint (RetryTimes p + 1)))]"
  | (I) e info m where "issued p (final (do env p)) =
             [CPing None, CCreateNodeInfo info (Some e), CLog AtDebug m]"
  | (G) e info st m where "result (do env p) = Some (Some e)"
       "issued p (final (do env p)) =
             CPing None # CCreateNodeInfo info None # st @ [CLog AtDebug m]"
       "list_all isStats st" "\<exists>c\<in>set st. statsError c = Some e"
       "userModels (final (do env p)) = userModels p"
  | (A) info xs lrs onl upd syn fin where
        "issued p (final (do env p)) =
             CPing None # CCreateNodeInfo info None # reads xs @ map (rowEv env p) lrs
               @ onl @ upd @ syn @ fin"
        "list_all isOnlineLog onl"
        "(if filter positive xs = [] then upd = []
            else (\<exists>t r. upd = [bulk env p (map (mkLog p) (filter positive xs)) t r]))"
        "list_all isSync syn"
        "(if \<not> IgnoreEmptyVmessID p \<and> (\<exists>c\<in>set syn. addFailed c)
            then result (do env p) = None \<and> fin = []
            else result (do env p) = Some None \<and> (\<exists>m. fin = [CLog AtDebug m]))"
    by blast
  then show ?thesis
  proof cases
    case P
    then show ?thesis using fail by simp
  next
    case I
    then show ?thesis using fail by simp
  next
    case G
    have "filter isRow st = []" "filter isUpdates st = []" "filter isOnlineLog st = []"
      "filter isFetch st = []" "filter isAdmin st = []"
      by (rule class_disjoint[OF G(3)], simp add: isStats_not)+
    then show ?thesis
      using G
      by (intro exI[of _ e] exI[of _ info] exI[of _ st] exI[of _ m]) simp
  next
    case A
    have "fin = [] \<or> (\<exists>m. fin = [CLog AtDebug m])"
      using A(5) by (simp split: if_splits)
    from no_statsError_collected[OF A(1,2,3,4) this] fail show ?thesis
      by (simp add: filter_empty_conv)
  qed
qed

theorem do_stats_failure_witness:
  "CGetUserDownlink ''bob'' (Inl ''stats down'')
     \<in> set (issued (demoPanel False [alice, bob])
          (final (do (demoEnv None None None
             [(''alice'', Inr 700, Inr 1500), (''bob'', Inl ''stats down'', Inr 0)]
             (Inr [carol]) [] []) (demoPanel False [alice, bob]))))
   \<and> (\<exists>e info st m.
       result (do (demoEnv None None None
             [(''alice'', Inr 700, Inr 1500), (''bob'', Inl ''stats down'', Inr 0)]
             (Inr [carol]) [] []) (demoPanel False [alice, bob])) = Some (Some e)
     \<and> (\<exists>c\<in>set st. statsError c = Some e)
     \<and> issued (demoPanel False [alice, bob])
          (final (do (demoEnv None None None
             [(''alice'', Inr 700, Inr 1500), (''bob'', Inl ''stats down'', Inr 0)]
             (Inr [carol]) [] []) (demoPanel False [alice, bob])))
         = CPing None # CCreateNodeInfo info None # st @ [CLog AtDebug m]
     \<and> list_all isStats st
     \<and> userModels (final (do (demoEnv None None None
             [(''alice'', Inr 700, Inr 1500), (''bob'', Inl ''stats down'', Inr 0)]
             (Inr [carol]) [] []) (demoPanel False [alice, bob]))) = [alice, bob])"
proof -
  let ?E = "demoEnv None None None
             [(''alice'', Inr 700, Inr 1500), (''bob'', Inl ''stats down'', Inr 0)]
             (Inr [carol]) [] []"
  let ?P = "demoPanel False [alice, bob]"
  have m: "CGetUserDownlink ''bob'' (Inl ''stats down'') \<in> set (issued ?P (final (do ?E ?P)))"
    unfolding demo_do_stats_fail by (simp add: issued_def demoPanel_def)
  have "statsError (CGetUserDownlink ''bob'' (Inl ''stats down'') :: nat effect) \<noteq> None"
    by simp
  with m have h: "\<exists>c\<in>set (issued ?P (final (do ?E ?P))). statsError c \<noteq> None"
    by blast
  have um: "userModels ?P = [alice, bob]" by (simp add: demoPanel_def)
  from do_stats_failure[OF h] m show ?thesis
    unfolding um by blast
qed

text \<open>
  Claim C5, amended. If the ping and the heartbeat insert succeed and no stats read fails,
  \<^verbatim>\<open>do\<close> returns nil whatever the traffic-log inserts, the online-snapshot insert, the
  bulk update, the fetch and the remove calls answer, with one exception: when an add call
  fails on a node without \<^verbatim>\<open>IgnoreEmptyVmessID\<close>, \<^verbatim>\<open>fatal\<close> halts the process inside
  \<^verbatim>\<open>syncUser\<close> and \<^verbatim>\<open>do\<close> does not return at all.
\<close>

theorem do_returns_nil:
  assumes ping: "CPing None \<in> set (issued p (final (do env p)))"
    and hb: "\<exists>info. CCreateNodeInfo info None \<in> set (issued p (final (do env p)))"
    and ok: "\<forall>c\<in>set (issued p (final (do env p))). statsError c = None"
  shows "if \<not> IgnoreEmptyVmessID p \<and> (\<exists>c\<in>set (issued p (final (do env p))). addFailed c)
         then result (do env p) = None
         else result (do env p) = Some None"
proof -
  from do_collected[OF ping hb ok] obtain info xs lrs onl upd syn fin where
    T: "issued p (final (do env p)) =
             CPing None # CCreateNodeInfo info None # reads xs @ map (rowEv env p) lrs
               @ onl @ upd @ syn @ fin"
    and onl: "list_all isOnlineLog onl"
    and upd: "(if filter positive xs = [] then upd = []
            else (\<exists>t r. upd = [bulk env p (map (mkLog p) (filter positive xs)) t r]))"
    and res: "(if \<not> IgnoreEmptyVmessID p \<and> (\<exists>c\<in>set syn. addFailed c)
            then result (do env p) = None \<and> fin = []
            else result (do env p) = Some None \<and> (\<exists>m. fin = [CLog AtDebug m]))"
    by blast
  have fin: "fin = [] \<or> (\<exists>m. fin = [CLog AtDebug m])"
    using res by (simp split: if_splits)
  have "filter addFailed (reads xs) = []" by (rule reads_class) simp_all
  moreover have "filter addFailed (map (rowEv env p) lrs) = []" by (rule rows_class) simp
  moreover have "filter addFailed onl = []"
    by (rule class_disjoint[OF onl]) (rule isOnlineLog_not_addFailed)
  moreover have "filter addFailed upd = []" by (rule upd_class[OF upd]) simp
  moreover have "filter addFailed fin = []" by (rule fin_class[OF fin]) simp
  ultimately have "filter addFailed (issued p (final (do env p))) = filter addFailed syn"
    unfolding T by simp
  then have "(\<exists>c\<in>set (issued p (final (do env p))). addFailed c) = (\<exists>c\<in>set syn. addFailed c)"
    unfolding filter_Bex by simp
  then show ?thesis using res by (simp split: if_splits)
qed

text \<open>
  A cycle on which every database write after the heartbeat fails and the removal of alice
  fails: \<^verbatim>\<open>do\<close> returns nil.
\<close>

theorem do_returns_nil_witness:
  "CPing None
     \<in> set (issued (demoPanel False [alice, bob])
          (final (do (demoEnv None None (Some ''write failed'') [(''alice'', Inr 700, Inr 1500)]
             (Inr [carol]) [''alice''] []) (demoPanel False [alice, bob]))))
   \<and> CCreateNodeInfo (NodeInfo 1 60 ''0.00 0.00 0.00'') None
     \<in> set (issued (demoPanel False [alice, bob])
          (final (do (demoEnv None None (Some ''write failed'') [(''alice'', Inr 700, Inr 1500)]
             (Inr [carol]) [''alice''] []) (demoPanel False [alice, bob]))))
   \<and> filter (\<lambda>c. statsError c \<noteq> None) (issued (demoPanel False [alice, bob])
          (final (do (demoEnv None None (Some ''write failed'') [(''alice'', Inr 700, Inr 1500)]
             (Inr [carol]) [''alice''] []) (demoPanel False [alice, bob])))) = []
   \<and> CDelUser ''alice'' (Some ''remove failed'')
     \<in> set (issued (demoPanel False [alice, bob])
          (final (do (demoEnv None None (Some ''write failed'') [(''alice'', Inr 700, Inr 1500)]
             (Inr [carol]) [''alice''] []) (demoPanel False [alice, bob]))))
   \<and> CCreateNodeOnlineLog (NodeOnlineLog 1 1) (Some ''write failed'')
     \<in> set (issued (demoPanel False [alice, bob])
          (final (do (demoEnv None None (Some ''write failed'') [(''alice'', Inr 700, Inr 1500)]
             (Inr [carol]) [''alice''] []) (demoPanel False [alice, bob]))))
   \<and> result (do (demoEnv None None (Some ''write failed'') [(''alice'', Inr 700, Inr 1500)]
             (Inr [carol]) [''alice''] []) (demoPanel False [alice, bob])) = Some None"
proof -
  let ?E = "demoEnv None None (Some ''write failed'') [(''alice'', Inr 700, Inr 1500)]
             (Inr [carol]) [''alice''] []"
  let ?P = "demoPanel False [alice, bob]"
  have ping: "CPing None \<in> set (issued ?P (final (do ?E ?P)))"
    and hb0: "CCreateNodeInfo (NodeInfo 1 60 ''0.00 0.00 0.00'') None
                \<in> set (issued ?P (final (do ?E ?P)))"
    and ok0: "filter (\<lambda>c. statsError c \<noteq> None) (issued ?P (final (do ?E ?P))) = []"
    and del: "CDelUser ''alice'' (Some ''remove failed'') \<in> set (issued ?P (final (do ?E ?P)))"
    and onl: "CCreateNodeOnlineLog (NodeOnlineLog 1 1) (Some ''write failed'')
                \<in> set (issued ?P (final (do ?E ?P)))"
    and na0: "filter addFailed (issued ?P (final (do ?E ?P))) = []"
    unfolding demo_do_errors by (simp_all add: issued_def demoPanel_def)
  have hb: "\<exists>info. CCreateNodeInfo info None \<in> set (issued ?P (final (do ?E ?P)))"
    using hb0 by blast
  have ok: "\<forall>c\<in>set (issued ?P (final (do ?E ?P))). statsError c = None"
    using ok0 unfolding filter_empty_conv by simp
  have na: "\<not> (\<exists>c\<in>set (issued ?P (final (do ?E ?P))). addFailed c)"
    using na0 unfolding filter_empty_conv by simp
  have "result (do ?E ?P) = Some None"
    using do_returns_nil[OF ping hb ok] na by (simp only: simp_thms if_False)
  with ping hb0 ok0 del onl show ?thesis by blast
qed

text \<open>
  Without the exception the claim fails: ping, heartbeat and stats reads succeed, the add
  of carol fails on a node that does not tolerate it, and \<^verbatim>\<open>do\<close> does not return nil.
\<close>

theorem do_returns_nil_counterexample:
  "CPing None
     \<in> set (issued (demoPanel False [alice])
          (final (do (demoEnv None None None [] (Inr [alice2, carol, dave]) [] [''carol''])
             (demoPanel False [alice]))))
   \<and> CCreateNodeInfo (NodeInfo 1 60 ''0.00 0.00 0.00'') None
     \<in> set (issued (demoPanel False [alice])
          (final (do (demoEnv None None None [] (Inr [alice2, carol, dave]) [] [''carol''])
             (demoPanel False [alice]))))
   \<and> filter (\<lambda>c. statsError c \<noteq> None) (issued (demoPanel False [alice])
          (final (do (demoEnv None None None [] (Inr [alice2, carol, dave]) [] [''carol''])
             (demoPanel False [alice])))) = []
   \<and> result (do (demoEnv None None None [] (Inr [alice2, carol, dave]) [] [''carol''])
             (demoPanel False [alice])) = None
   \<and> do (demoEnv None None None [] (Inr [alice2, carol, dave]) [] [''carol''])
             (demoPanel False [alice]) \<noteq>
       Returned None (final (do (demoEnv None None None [] (Inr [alice2, carol, dave]) [] [''carol''])
             (demoPanel False [alice])))"
  unfolding demo_do_fatal by (simp add: issued_def demoPanel_def)

text \<open>
  Claim C9, amended. A user has positive traffic when \<^verbatim>\<open>uplink+downlink > 0\<close> holds as Go
  computes it on two \<^verbatim>\<open>uint64\<close> values, the sum taken modulo \<open>2^64\<close> (\<open>positive\<close>,
  \<open>positive_unat\<close>). In a cycle whose ping, heartbeat insert and stats reads all succeed,
  let \<open>xs\<close> be the values read for the provisioned users. If some user has positive
  traffic, the cycle issues exactly one \<^verbatim>\<open>Updates\<close> call, however many such users there
  are: \<open>bulk\<close>, keyed by the identifiers of the users with positive traffic, with one
  \<^verbatim>\<open>WHEN id THEN u + n\<close> and one \<^verbatim>\<open>WHEN id THEN d + n\<close> clause per user, \<open>n\<close> being that
  user's own billed uplink and downlink. If no user has positive traffic, it issues none.
  In every other cycle, one whose ping, heartbeat insert or one of whose stats reads
  fails, no \<^verbatim>\<open>Updates\<close> call is issued.
\<close>

theorem do_one_bulk_update:
  "if CPing None \<in> set (issued p (final (do env p)))
      \<and> (\<exists>info. CCreateNodeInfo info None \<in> set (issued p (final (do env p))))
      \<and> (\<forall>c\<in>set (issued p (final (do env p))). statsError c = None)
   then \<exists>xs. map fst xs = userModels p
       \<and> filter isStats (issued p (final (do env p))) = reads xs
       \<and> (if \<exists>x\<in>set xs. positive x
           then \<exists>t r. filter isUpdates (issued p (final (do env p))) =
                         [bulk env p (map (mkLog p) (filter positive xs)) t r]
           else filter isUpdates (issued p (final (do env p))) = [])
   else filter isUpdates (issued p (final (do env p))) = []"
proof (cases "CPing None \<in> set (issued p (final (do env p)))
      \<and> (\<exists>info. CCreateNodeInfo info None \<in> set (issued p (final (do env p))))
      \<and> (\<forall>c\<in>set (issued p (final (do env p))). statsError c = None)")
  case False
  have "filter isUpdates (issued p (final (do env p))) = []"
    by (rule do_aborted[OF False])
  then show ?thesis using False by (simp only: if_False)
next
  case True
  then have ping: "CPing None \<in> set (issued p (final (do env p)))"
    and hb: "\<exists>info. CCreateNodeInfo info None \<in> set (issued p (final (do env p)))"
    and ok: "\<forall>c\<in>set (issued p (final (do env p))). statsError c = None"
    by blast+
  from do_collected[OF ping hb ok] obtain info xs lrs onl upd syn fin where
    T: "issued p (final (do env p)) =
             CPing None # CCreateNodeInfo info None # reads xs @ map (rowEv env p) lrs
               @ onl @ upd @ syn @ fin"
    and xs: "map fst xs = userModels p"
    and onl: "list_all isOnlineLog onl"
    and upd: "(if filter positive xs = [] then upd = []
            else (\<exists>t r. upd = [bulk env p (map (mkLog p) (filter positive xs)) t r]))"
    and syn: "list_all isSync syn"
    and res: "(if \<not> IgnoreEmptyVmessID p \<and> (\<exists>c\<in>set syn. addFailed c)
            then result (do env p) = None \<and> fin = []
            else result (do env p) = Some None \<and> (\<exists>m. fin = [CLog AtDebug m]))"
    by blast
  have fin: "fin = [] \<or> (\<exists>m. fin = [CLog AtDebug m])"
    using res by (simp split: if_splits)
  have s: "filter isStats (issued p (final (do env p))) = reads xs"
  proof -
    have "filter isStats (map (rowEv env p) lrs) = []" by (rule rows_class) simp
    moreover have "filter isStats onl = []"
      by (rule class_disjoint[OF onl]) (simp add: isOnlineLog_not)
    moreover have "filter isStats upd = []" by (rule upd_class[OF upd]) simp
    moreover have "filter isStats syn = []"
      by (rule class_disjoint[OF syn]) (simp add: isSync_not)
    moreover have "filter isStats fin = []" by (rule fin_class[OF fin]) simp
    ultimately show ?thesis unfolding T by (simp add: filter_reads_isStats)
  qed
  have u: "filter isUpdates (issued p (final (do env p))) = upd"
  proof -
    have "filter isUpdates (reads xs) = []" by (rule reads_class) simp_all
    moreover have "filter isUpdates (map (rowEv env p) lrs) = []" by (rule rows_class) simp
    moreover have "filter isUpdates onl = []"
      by (rule class_disjoint[OF onl]) (simp add: isOnlineLog_not)
    moreover have "filter isUpdates syn = []"
      by (rule class_disjoint[OF syn]) (simp add: isSync_not)
    moreover have "filter isUpdates fin = []" by (rule fin_class[OF fin]) simp
    ultimately show ?thesis unfolding T by (simp add: filter_isUpdates_upd[OF upd])
  qed
  have pos: "(\<exists>x\<in>set xs. positive x) = (filter positive xs \<noteq> [])"
    by (rule filter_Bex)
  have "(if \<exists>x\<in>set xs. positive x
           then \<exists>t r. filter isUpdates (issued p (final (do env p))) =
                         [bulk env p (map (mkLog p) (filter positive xs)) t r]
           else filter isUpdates (issued p (final (do env p))) = [])"
    unfolding u pos using upd by (simp split: if_splits)
  with xs s have "\<exists>xs. map fst xs = userModels p
       \<and> filter isStats (issued p (final (do env p))) = reads xs
       \<and> (if \<exists>x\<in>set xs. positive x
           then \<exists>t r. filter isUpdates (issued p (final (do env p))) =
                         [bulk env p (map (mkLog p) (filter positive xs)) t r]
           else filter isUpdates (issued p (final (do env p))) = [])" by blast
  then show ?thesis unfolding if_P[OF True] .
qed

text \<open>
  Three provisioned users, two of them with traffic: one call, two clauses on each side.
  And a cycle whose heartbeat insert fails: no call.
\<close>

theorem do_one_bulk_update_witness:
  "(CPing None
     \<in> set (issued (demoPanel False [alice, bob, dave])
          (final (do (demoEnv None None None [(''alice'', Inr 700, Inr 1500), (''bob'', Inr 50, Inr 100)]
             (Inr [alice, bob, dave]) [] []) (demoPanel False [alice, bob, dave]))))
   \<and> CCreateNodeInfo (NodeInfo 1 60 ''0.00 0.00 0.00'') None
     \<in> set (issued (demoPanel False [alice, bob, dave])
          (final (do (demoEnv None None None [(''alice'', Inr 700, Inr 1500), (''bob'', Inr 50, Inr 100)]
             (Inr [alice, bob, dave]) [] []) (demoPanel False [alice, bob, dave]))))
   \<and> filter (\<lambda>c. statsError c \<noteq> None) (issued (demoPanel False [alice, bob, dave])
          (final (do (demoEnv None None None [(''alice'', Inr 700, Inr 1500), (''bob'', Inr 50, Inr 100)]
             (Inr [alice, bob, dave]) [] []) (demoPanel False [alice, bob, dave])))) = []
   \<and> filter isUpdates (issued (demoPanel False [alice, bob, dave])
          (final (do (demoEnv None None None [(''alice'', Inr 700, Inr 1500), (''bob'', Inr 50, Inr 100)]
             (Inr [alice, bob, dave]) [] []) (demoPanel False [alice, bob, dave])))) =
        [CUpdates [1, 2] ''CASE id  WHEN 1 THEN u + 3000 WHEN 2 THEN u + 200 END''
           ''CASE id  WHEN 1 THEN d + 1400 WHEN 2 THEN d + 100 END'' 1700000000 None]
   \<and> (\<exists>xs. map fst xs = [alice, bob, dave]
         \<and> filter isStats (issued (demoPanel False [alice, bob, dave])
          (final (do (demoEnv None None None [(''alice'', Inr 700, Inr 1500), (''bob'', Inr 50, Inr 100)]
             (Inr [alice, bob, dave]) [] []) (demoPanel False [alice, bob, dave])))) = reads xs
         \<and> (\<exists>x\<in>set xs. positive x)
         \<and> (\<exists>t r. filter isUpdates (issued (demoPanel False [alice, bob, dave])
          (final (do (demoEnv None None None [(''alice'', Inr 700, Inr 1500), (''bob'', Inr 50, Inr 100)]
             (Inr [alice, bob, dave]) [] []) (demoPanel False [alice, bob, dave])))) =
               [bulk (demoEnv None None None [(''alice'', Inr 700, Inr 1500), (''bob'', Inr 50, Inr 100)]
                       (Inr [alice, bob, dave]) [] [])
                  (demoPanel False [alice, bob, dave])
                  (map (mkLog (demoPanel False [alice, bob, dave])) (filter positive xs)) t r])))
   \<and> (CCreateNodeInfo (NodeInfo 1 60 ''0.00 0.00 0.00'') (Some ''insert failed'')
        \<in> set (issued (demoPanel False [alice])
             (final (do (demoEnv None (Some ''insert failed'') None [(''alice'', Inr 700, Inr 1500)]
                (Inr [carol]) [] []) (demoPanel False [alice]))))
      \<and> \<not> (\<exists>info. CCreateNodeInfo info None
        \<in> set (issued (demoPanel False [alice])
             (final (do (demoEnv None (Some ''insert failed'') None [(''alice'', Inr 700, Inr 1500)]
                (Inr [carol]) [] []) (demoPanel False [alice])))))
      \<and> filter isUpdates (issued (demoPanel False [alice])
             (final (do (demoEnv None (Some ''insert failed'') None [(''alice'', Inr 700, Inr 1500)]
                (Inr [carol]) [] []) (demoPanel False [alice])))) = [])"
proof (rule conjI)
  let ?E = "demoEnv None None None [(''alice'', Inr 700, Inr 1500), (''bob'', Inr 50, Inr 100)]
             (Inr [alice, bob, dave]) [] []"
  let ?P = "demoPanel False [alice, bob, dave]"
  have ping: "CPing None \<in> set (issued ?P (final (do ?E ?P)))"
    and hb0: "CCreateNodeInfo (NodeInfo 1 60 ''0.00 0.00 0.00'') None
                \<in> set (issued ?P (final (do ?E ?P)))"
    and ok0: "filter (\<lambda>c. statsError c \<noteq> None) (issued ?P (final (do ?E ?P))) = []"
    and u: "filter isUpdates (issued ?P (final (do ?E ?P))) =
        [CUpdates [1, 2] ''CASE id  WHEN 1 THEN u + 3000 WHEN 2 THEN u + 200 END''
           ''CASE id  WHEN 1 THEN d + 1400 WHEN 2 THEN d + 100 END'' 1700000000 None]"
    unfolding demo_do_bulk by (simp_all add: issued_def demoPanel_def)
  have hb: "\<exists>info. CCreateNodeInfo info None \<in> set (issued ?P (final (do ?E ?P)))"
    using hb0 by blast
  have ok: "\<forall>c\<in>set (issued ?P (final (do ?E ?P))). statsError c = None"
    using ok0 unfolding filter_empty_conv by simp
  have cond: "CPing None \<in> set (issued ?P (final (do ?E ?P)))
      \<and> (\<exists>info. CCreateNodeInfo info None \<in> set (issued ?P (final (do ?E ?P))))
      \<and> (\<forall>c\<in>set (issued ?P (final (do ?E ?P))). statsError c = None)"
    using ping hb ok by (intro conjI)
  have um: "userModels ?P = [alice, bob, dave]" by (simp add: demoPanel_def)
  from do_one_bulk_update[of ?P ?E, unfolded if_P[OF cond]] obtain xs where
    a: "map fst xs = userModels ?P"
    and b: "filter isStats (issued ?P (final (do ?E ?P))) = reads xs"
    and c: "(if \<exists>x\<in>set xs. positive x
           then \<exists>t r. filter isUpdates (issued ?P (final (do ?E ?P))) =
                         [bulk ?E ?P (map (mkLog ?P) (filter positive xs)) t r]
           else filter isUpdates (issued ?P (final (do ?E ?P))) = [])"
    by blast
  have pos: "\<exists>x\<in>set xs. positive x"
  proof (rule ccontr)
    assume "\<not> (\<exists>x\<in>set xs. positive x)"
    then have "filter isUpdates (issued ?P (final (do ?E ?P))) = []"
      using c by (simp only: if_False)
    then show False unfolding u by simp
  qed
  then have d: "\<exists>t r. filter isUpdates (issued ?P (final (do ?E ?P))) =
                         [bulk ?E ?P (map (mkLog ?P) (filter positive xs)) t r]"
    using c by (simp only: if_True)
  have
    "\<exists>xs. map fst xs = [alice, bob, dave]
         \<and> filter isStats (issued ?P (final (do ?E ?P))) = reads xs
         \<and> (\<exists>x\<in>set xs. positive x)
         \<and> (\<exists>t r. filter isUpdates (issued ?P (final (do ?E ?P))) =
               [bulk ?E ?P (map (mkLog ?P) (filter positive xs)) t r])"
    apply (rule exI[of _ xs])
    apply (intro conjI)
       apply (rule a[unfolded um])
      apply (rule b)
     apply (rule pos)
    apply (rule d)
    done
  with ping hb0 ok0 u show
    "CPing None \<in> set (issued ?P (final (do ?E ?P)))
   \<and> CCreateNodeInfo (NodeInfo 1 60 ''0.00 0.00 0.00'') None \<in> set (issued ?P (final (do ?E ?P)))
   \<and> filter (\<lambda>c. statsError c \<noteq> None) (issued ?P (final (do ?E ?P))) = []
   \<and> filter isUpdates (issued ?P (final (do ?E ?P))) =
        [CUpdates [1, 2] ''CASE id  WHEN 1 THEN u + 3000 WHEN 2 THEN u + 200 END''
           ''CASE id  WHEN 1 THEN d + 1400 WHEN 2 THEN d + 100 END'' 1700000000 None]
   \<and> (\<exists>xs. map fst xs = [alice, bob, dave]
         \<and> filter isStats (issued ?P (final (do ?E ?P))) = reads xs
         \<and> (\<exists>x\<in>set xs. positive x)
         \<and> (\<exists>t r. filter isUpdates (issued ?P (final (do ?E ?P))) =
               [bulk ?E ?P (map (mkLog ?P) (filter positive xs)) t r]))"
    by (intro conjI)
next
  let ?E = "demoEnv None (Some ''insert failed'') None [(''alice'', Inr 700, Inr 1500)]
                (Inr [carol]) [] []"
  let ?P = "demoPanel False [alice]"
  have hbf: "CCreateNodeInfo (NodeInfo 1 60 ''0.00 0.00 0.00'') (Some ''insert failed'')
        \<in> set (issued ?P (final (do ?E ?P)))"
    and nhb: "\<not> (\<exists>info. CCreateNodeInfo info None \<in> set (issued ?P (final (do ?E ?P))))"
    unfolding demo_do_hb_fail by (simp_all add: issued_def demoPanel_def)
  have ncond: "\<not> (CPing None \<in> set (issued ?P (final (do ?E ?P)))
      \<and> (\<exists>info. CCreateNodeInfo info None \<in> set (issued ?P (final (do ?E ?P))))
      \<and> (\<forall>c\<in>set (issued ?P (final (do ?E ?P))). statsError c = None))"
    using nhb by blast
  have "filter isUpdates (issued ?P (final (do ?E ?P))) = []"
    using do_one_bulk_update[of ?P ?E] unfolding if_not_P[OF ncond] .
  with hbf nhb show
    "CCreateNodeInfo (NodeInfo 1 60 ''0.00 0.00 0.00'') (Some ''insert failed'')
        \<in> set (issued ?P (final (do ?E ?P)))
      \<and> \<not> (\<exists>info. CCreateNodeInfo info None \<in> set (issued ?P (final (do ?E ?P))))
      \<and> filter isUpdates (issued ?P (final (do ?E ?P))) = []"
    by (intro conjI)
qed

text \<open>
  As stated the claim fails twice. Alice has positive traffic, the read for bob fails, and
  the cycle issues no bulk update. And in a cycle on which nothing fails, alice's uplink and
  downlink are \<open>2^63\<close> bytes each: their sum is positive, the \<^verbatim>\<open>uint64\<close> sum is zero, and
  the cycle issues no bulk update.
\<close>

theorem do_one_bulk_update_counterexample:
  "(CGetUserDownlink ''alice'' (Inr 700)
     \<in> set (issued (demoPanel False [alice, bob])
          (final (do (demoEnv None None None
             [(''alice'', Inr 700, Inr 1500), (''bob'', Inl ''stats down'', Inr 0)]
             (Inr [carol]) [] []) (demoPanel False [alice, bob]))))
   \<and> CGetUserUplink ''alice'' (Inr 1500)
     \<in> set (issued (demoPanel False [alice, bob])
          (final (do (demoEnv None None None
             [(''alice'', Inr 700, Inr 1500), (''bob'', Inl ''stats down'', Inr 0)]
             (Inr [carol]) [] []) (demoPanel False [alice, bob]))))
   \<and> positive (alice, 700, 1500)
   \<and> filter isUpdates (issued (demoPanel False [alice, bob])
          (final (do (demoEnv None None None
             [(''alice'', Inr 700, Inr 1500), (''bob'', Inl ''stats down'', Inr 0)]
             (Inr [carol]) [] []) (demoPanel False [alice, bob])))) = [])
   \<and> (CPing None
        \<in> set (issued (demoPanel False [alice])
          (final (do (demoEnv None None None
             [(''alice'', Inr 9223372036854775808, Inr 9223372036854775808)]
             (Inr [alice]) [] []) (demoPanel False [alice]))))
      \<and> CCreateNodeInfo (NodeInfo 1 60 ''0.00 0.00 0.00'') None
        \<in> set (issued (demoPanel False [alice])
          (final (do (demoEnv None None None
             [(''alice'', Inr 9223372036854775808, Inr 9223372036854775808)]
             (Inr [alice]) [] []) (demoPanel False [alice]))))
      \<and> filter isStats (issued (demoPanel False [alice])
          (final (do (demoEnv None None None
             [(''alice'', Inr 9223372036854775808, Inr 9223372036854775808)]
             (Inr [alice]) [] []) (demoPanel False [alice])))) =
           [CGetUserDownlink ''alice'' (Inr 9223372036854775808),
            CGetUserUplink ''alice'' (Inr 9223372036854775808)]
      \<and> 0 < unat (9223372036854775808 :: u64) + unat (9223372036854775808 :: u64)
      \<and> \<not> positive (alice, 9223372036854775808, 9223372036854775808)
      \<and> filter isUpdates (issued (demoPanel False [alice])
          (final (do (demoEnv None None None
             [(''alice'', Inr 9223372036854775808, Inr 9223372036854775808)]
             (Inr [alice]) [] []) (demoPanel False [alice])))) = [])"
proof (rule conjI)
  show "CGetUserDownlink ''alice'' (Inr 700)
     \<in> set (issued (demoPanel False [alice, bob])
          (final (do (demoEnv None None None
             [(''alice'', Inr 700, Inr 1500), (''bob'', Inl ''stats down'', Inr 0)]
             (Inr [carol]) [] []) (demoPanel False [alice, bob]))))
   \<and> CGetUserUplink ''alice'' (Inr 1500)
     \<in> set (issued (demoPanel False [alice, bob])
          (final (do (demoEnv None None None
             [(''alice'', Inr 700, Inr 1500), (''bob'', Inl ''stats down'', Inr 0)]
             (Inr [carol]) [] []) (demoPanel False [alice, bob]))))
   \<and> positive (alice, 700, 1500)
   \<and> filter isUpdates (issued (demoPanel False [alice, bob])
          (final (do (demoEnv None None None
             [(''alice'', Inr 700, Inr 1500), (''bob'', Inl ''stats down'', Inr 0)]
             (Inr [carol]) [] []) (demoPanel False [alice, bob])))) = []"
    unfolding demo_do_stats_fail by (simp add: issued_def demoPanel_def)
next
  show "CPing None
        \<in> set (issued (demoPanel False [alice])
          (final (do (demoEnv None None None
             [(''alice'', Inr 9223372036854775808, Inr 9223372036854775808)]
             (Inr [alice]) [] []) (demoPanel False [alice]))))
      \<and> CCreateNodeInfo (NodeInfo 1 60 ''0.00 0.00 0.00'') None
        \<in> set (issued (demoPanel False [alice])
          (final (do (demoEnv None None None
             [(''alice'', Inr 9223372036854775808, Inr 9223372036854775808)]
             (Inr [alice]) [] []) (demoPanel False [alice]))))
      \<and> filter isStats (issued (demoPanel False [alice])
          (final (do (demoEnv None None None
             [(''alice'', Inr 9223372036854775808, Inr 9223372036854775808)]
             (Inr [alice]) [] []) (demoPanel False [alice])))) =
           [CGetUserDownlink ''alice'' (Inr 9223372036854775808),
            CGetUserUplink ''alice'' (Inr 9223372036854775808)]
      \<and> 0 < unat (9223372036854775808 :: u64) + unat (9223372036854775808 :: u64)
      \<and> \<not> positive (alice, 9223372036854775808, 9223372036854775808)
      \<and> filter isUpdates (issued (demoPanel False [alice])
          (final (do (demoEnv None None None
             [(''alice'', Inr 9223372036854775808, Inr 9223372036854775808)]
             (Inr [alice]) [] []) (demoPanel False [alice])))) = []"
    unfolding demo_do_wrap by (simp add: issued_def demoPanel_def)
qed

end
